theory Spec2Isabelle
  imports Main "HOL-Library.AList"
begin

section \<open>Strings of the source language\<close>

text \<open>
  A Python \<open>str\<close> is a sequence of code points. It is modelled as a \<open>string\<close>
  (a list of \<open>char\<close>), each \<open>char\<close> standing for the code point of the same
  number, U+0000 to U+00FF. Code points above U+00FF are outside the model.

  \<open>str.isspace\<close> on one character, for the code points below 256: the ASCII
  controls 9 to 13 and 28 to 31, the space, U+0085 and U+00A0.
\<close>

definition isspace :: "char \<Rightarrow> bool" where
  "isspace c = ((of_char c :: nat) \<in> {9, 10, 11, 12, 13, 28, 29, 30, 31, 32, 133, 160})"

text \<open>\<open>str.strip()\<close> with no argument removes leading and trailing whitespace.\<close>

definition strip :: "string \<Rightarrow> string" where
  "strip s = rev (dropWhile isspace (rev (dropWhile isspace s)))"

text \<open>
  \<open>str.lower()\<close> on one character below U+0100: the ASCII capitals and the Latin-1
  capitals U+00C0 to U+00DE (but the multiplication sign U+00D7) move up by 32.
\<close>

definition lower_char :: "char \<Rightarrow> char" where
  "lower_char c =
     (let n = (of_char c :: nat)
      in if (65 \<le> n \<and> n \<le> 90) \<or> (192 \<le> n \<and> n \<le> 222 \<and> n \<noteq> 215)
         then char_of (n + 32) else c)"

definition lower :: "string \<Rightarrow> string" where
  "lower s = map lower_char s"

subsection \<open>The integer conversion \<open>int(s)\<close>\<close>

text \<open>
  \<open>int(s)\<close> on a \<open>str\<close>, base ten: whitespace around the text is dropped, one
  sign may lead, then come decimal digits, where single underscores may stand between
  digits. Anything else raises \<open>ValueError\<close>, which is the value \<open>None\<close> here.
  The scan keeps the previous character, as the interpreter's loop does, to refuse a
  doubled or a final underscore. (The digit-count limit that later interpreters put on
  the conversion is not modelled.)

  The whitespace that \<open>int\<close> drops is not that of \<open>str.isspace\<close>: the conversion
  keeps every code point below 127 as it is and then skips the C whitespace, 9 to 13
  and the space; of the code points from 127 on it turns the Unicode whitespace into
  a space first, which below U+0100 is U+0085 and U+00A0. So the separators 28 to 31,
  which \<open>str.strip\<close> removes, are not whitespace for \<open>int\<close>: \<open>int("12\x1c")\<close>
  raises.
\<close>

definition int_space :: "char \<Rightarrow> bool" where
  "int_space c = ((of_char c :: nat) \<in> {9, 10, 11, 12, 13, 32, 133, 160})"

definition int_strip :: "string \<Rightarrow> string" where
  "int_strip s = rev (dropWhile int_space (rev (dropWhile int_space s)))"

definition isdigit :: "char \<Rightarrow> bool" where
  "isdigit c = (48 \<le> (of_char c :: nat) \<and> (of_char c :: nat) \<le> 57)"

definition digit_val :: "char \<Rightarrow> nat" where
  "digit_val c = of_char c - 48"

fun int_digits :: "char \<Rightarrow> nat \<Rightarrow> string \<Rightarrow> nat option" where
  "int_digits prev acc [] = (if prev = CHR ''_'' then None else Some acc)"
| "int_digits prev acc (c # cs) =
     (if c = CHR ''_'' then (if prev = CHR ''_'' then None else int_digits c acc cs)
      else if isdigit c then int_digits c (acc * 10 + digit_val c) cs
      else None)"

definition py_int :: "string \<Rightarrow> int option" where
  "py_int s =
     (let t = int_strip s;
          neg = (t \<noteq> [] \<and> hd t = CHR ''-'');
          body = (if t \<noteq> [] \<and> (hd t = CHR ''-'' \<or> hd t = CHR ''+'') then tl t else t)
      in if body = [] then None
         else if hd body = CHR ''_'' then None
         else (case int_digits (CHR ''0'') 0 body of
                 None \<Rightarrow> None
               | Some n \<Rightarrow> Some (if neg then - int n else int n)))"

section \<open>Answer grammar\<close>

datatype error = TypeError | IndexError | KeyError | ValueError

subsection \<open>\<open>parse_clue\<close>\<close>

text \<open>
  The source returns the pair \<open>(number, direction)\<close> or the pair \<open>(None, None)\<close>;
  the latter is \<open>None\<close> here. The argument may be Python's \<open>None\<close>. The \<open>try\<close>
  around \<open>int(clue[:-1])\<close> catches every exception, so a failed conversion is the
  failure result.
\<close>

definition parse_clue :: "string option \<Rightarrow> (int \<times> string) option" where
  "parse_clue clue =
     (case clue of
        None \<Rightarrow> None
      | Some c0 \<Rightarrow>
          (let c = strip c0
           in if length c = 0 then None
              else (case py_int (butlast c) of
                      None \<Rightarrow> None
                    | Some number \<Rightarrow>
                        (let direction = lower [last c]
                         in if direction \<noteq> ''a'' \<and> direction \<noteq> ''d'' then None
                            else Some (number, direction)))))"

subsection \<open>\<open>parse_answer\<close>\<close>

text \<open>
  The loop of \<open>parse_answer\<close> over the characters of the answer, with the list
  \<open>cells\<close> and the flag \<open>inParens\<close> as its state. \<open>cells[-1] += c\<close> raises
  \<open>IndexError\<close> on an empty list; the model keeps that branch.
\<close>

definition append_to_last :: "string list \<Rightarrow> char \<Rightarrow> error + string list" where
  "append_to_last cells c =
     (if cells = [] then Inl IndexError else Inr (butlast cells @ [last cells @ [c]]))"

fun parse_answer_loop :: "string \<Rightarrow> string list \<Rightarrow> bool \<Rightarrow> error + string list" where
  "parse_answer_loop [] cells inParens = Inr cells"
| "parse_answer_loop (c # cs) cells inParens =
     (if isspace c then parse_answer_loop cs cells inParens
      else if inParens \<and> c = CHR '')'' then parse_answer_loop cs cells False
      else if inParens then
        (case append_to_last cells c of
           Inl e \<Rightarrow> Inl e
         | Inr cells' \<Rightarrow> parse_answer_loop cs cells' inParens)
      else if c = CHR ''('' then parse_answer_loop cs (cells @ ['''']) True
      else parse_answer_loop cs (cells @ [if c \<noteq> CHR ''.'' then [c] else '''']) inParens)"

definition parse_answer :: "string \<Rightarrow> error + string list" where
  "parse_answer answer = parse_answer_loop answer [] False"

section \<open>Data model\<close>

text \<open>
  A cell of a grid is a string, or Python's \<open>None\<close> where the puzzle has a block:
  \<open>None\<close> is \<open>None\<close> and the string \<open>s\<close> is \<open>Some s\<close>. A grid is indexed by row
  first. A \<open>datetime\<close> is naive and has microsecond resolution: it is the number of
  microseconds since a fixed origin, so that the difference of two of them is the exact
  \<open>timedelta\<close>. A Python \<open>dict\<close> with integer keys is an association list in insertion
  order; \<open>d[k] = v\<close> is \<open>AList.update k v d\<close>, which replaces in place or appends.
\<close>

type_synonym cell = "string option"
type_synonym grid = "cell list list"
type_synonym datetime = int
type_synonym 'v dict = "(int \<times> 'v) list"

record Puzzle =
  rows :: nat
  cols :: nat
  title :: string
  publisher :: string
  published :: "nat \<times> nat \<times> nat"
  author :: string
  cells :: grid
  cell_clue_numbers :: "int list list"
  cell_circles :: "bool list list"
  across_clues :: "string dict"
  down_clues :: "string dict"

record Room =
  play_pause_state :: string
  puzzle :: Puzzle
  cells :: grid
  across_clues_filled :: "bool dict"
  down_clues_filled :: "bool dict"
  last_start_time :: "datetime option"
  total_time_secs :: int

subsection \<open>JSON documents and the collaborators outside the source files\<close>

text \<open>
  \<open>json.dumps\<close> and \<open>json.loads\<close> are the standard library's. The model works on
  the JSON document (the tree that the text denotes), not on its characters.
\<close>

datatype json =
    JNull
  | JBool bool
  | JInt int
  | JStr string
  | JList "json list"
  | JDict "(string \<times> json) list"

text \<open>
  The module \<open>puzzles\<close> (\<open>get_answer_cells\<close>, \<open>Puzzle.to_dict\<close>,
  \<open>Puzzle.from_dict\<close>) is not among the source files, and \<open>datetime.isoformat\<close> and
  \<open>dateutil.parser.parse\<close> are library code: they are parameters of the model.
  \<open>get_answer_cells puzzle num direction\<close> gives the \<open>(x, y)\<close> coordinates of a
  clue's cells in order; the coordinates are grid positions, so natural numbers.
\<close>

record externals =
  get_answer_cells :: "Puzzle \<Rightarrow> int \<Rightarrow> string \<Rightarrow> (nat \<times> nat) list"
  to_dict :: "Puzzle \<Rightarrow> json"
  from_dict :: "json \<Rightarrow> error + Puzzle"
  isoformat :: "datetime \<Rightarrow> string"
  dateutil_parse :: "string \<Rightarrow> error + datetime"

section \<open>Serialisation of a room\<close>

text \<open>\<open>str(n)\<close> for an integer: the decimal digits, after a minus sign when negative.\<close>

fun str_of_nat :: "nat \<Rightarrow> string" where
  "str_of_nat n =
     (if n < 10 then [char_of (48 + n)]
      else str_of_nat (n div 10) @ [char_of (48 + n mod 10)])"

declare str_of_nat.simps [simp del]

definition py_str :: "int \<Rightarrow> string" where
  "py_str i = (if i < 0 then CHR ''-'' # str_of_nat (nat (- i)) else str_of_nat (nat i))"

definition json_of_cell :: "cell \<Rightarrow> json" where
  "json_of_cell c = (case c of None \<Rightarrow> JNull | Some s \<Rightarrow> JStr s)"

definition json_of_grid :: "grid \<Rightarrow> json" where
  "json_of_grid g = JList (map (\<lambda>row. JList (map json_of_cell row)) g)"

text \<open>\<open>json.dumps\<close> writes the integer key \<open>n\<close> of a dict as the string \<open>str(n)\<close>.\<close>

definition json_of_filled :: "bool dict \<Rightarrow> json" where
  "json_of_filled d = JDict (map (\<lambda>(n, v). (py_str n, JBool v)) d)"

definition to_json :: "externals \<Rightarrow> Room \<Rightarrow> json" where
  "to_json E self =
     (let last_start_time =
            (case last_start_time self of
               None \<Rightarrow> JNull
             | Some t \<Rightarrow> JStr (isoformat E t))
      in JDict
           [(''play_pause_state'', JStr (play_pause_state self)),
            (''puzzle'', to_dict E (puzzle self)),
            (''cells'', json_of_grid (Room.cells self)),
            (''across_clues_filled'', json_of_filled (across_clues_filled self)),
            (''down_clues_filled'', json_of_filled (down_clues_filled self)),
            (''last_start_time'', last_start_time),
            (''total_time_secs'', JInt (total_time_secs self))])"

text \<open>
  \<open>json.loads\<close> keeps the last value of a repeated key of an object. \<open>d[k]\<close>
  raises \<open>KeyError\<close> for a missing key.
\<close>

definition json_get :: "json \<Rightarrow> string \<Rightarrow> error + json" where
  "json_get d k =
     (case d of
        JDict kvs \<Rightarrow> (case map_of (rev kvs) k of None \<Rightarrow> Inl KeyError | Some v \<Rightarrow> Inr v)
      | _ \<Rightarrow> Inl TypeError)"

text \<open>
  The comprehension \<open>{int(n): v for (n, v) in d[...].items()}\<close>: the items of the
  loaded object in order, each key converted by \<open>int\<close> and stored. The source keeps
  any value \<open>v\<close>; a room of the model holds booleans, and another value is reported
  as \<open>TypeError\<close>. The same holds for the other fields below: a document whose fields
  do not have the types of the room's attributes is outside the typed model.
\<close>

fun int_keys :: "(string \<times> json) list \<Rightarrow> bool dict \<Rightarrow> error + bool dict" where
  "int_keys [] acc = Inr acc"
| "int_keys ((n, v) # kvs) acc =
     (case py_int n of
        None \<Rightarrow> Inl ValueError
      | Some k \<Rightarrow>
          (case v of
             JBool b \<Rightarrow> int_keys kvs (AList.update k b acc)
           | _ \<Rightarrow> Inl TypeError))"

definition loaded_items :: "(string \<times> json) list \<Rightarrow> (string \<times> json) list" where
  "loaded_items kvs = foldl (\<lambda>acc (k, v). AList.update k v acc) [] kvs"

definition filled_of_json :: "json \<Rightarrow> error + bool dict" where
  "filled_of_json j =
     (case j of
        JDict kvs \<Rightarrow> int_keys (loaded_items kvs) []
      | _ \<Rightarrow> Inl TypeError)"

fun cells_of_row :: "json list \<Rightarrow> error + cell list" where
  "cells_of_row [] = Inr []"
| "cells_of_row (j # js) =
     (case j of
        JNull \<Rightarrow> (case cells_of_row js of Inl e \<Rightarrow> Inl e | Inr cs \<Rightarrow> Inr (None # cs))
      | JStr s \<Rightarrow> (case cells_of_row js of Inl e \<Rightarrow> Inl e | Inr cs \<Rightarrow> Inr (Some s # cs))
      | _ \<Rightarrow> Inl TypeError)"

fun grid_of_rows :: "json list \<Rightarrow> error + grid" where
  "grid_of_rows [] = Inr []"
| "grid_of_rows (j # js) =
     (case j of
        JList r \<Rightarrow>
          (case cells_of_row r of
             Inl e \<Rightarrow> Inl e
           | Inr row \<Rightarrow> (case grid_of_rows js of Inl e \<Rightarrow> Inl e | Inr g \<Rightarrow> Inr (row # g)))
      | _ \<Rightarrow> Inl TypeError)"

definition grid_of_json :: "json \<Rightarrow> error + grid" where
  "grid_of_json j = (case j of JList rs \<Rightarrow> grid_of_rows rs | _ \<Rightarrow> Inl TypeError)"

text \<open>
  \<open>if d["last_start_time"]\<close>: \<open>null\<close> and the empty string are false and are kept
  as they are; the empty string is not a \<open>datetime\<close>, hence outside the typed model.
\<close>

definition last_start_of_json :: "externals \<Rightarrow> json \<Rightarrow> error + datetime option" where
  "last_start_of_json E j =
     (case j of
        JNull \<Rightarrow> Inr None
      | JStr s \<Rightarrow>
          (if s = '''' then Inl TypeError
           else (case dateutil_parse E s of Inl e \<Rightarrow> Inl e | Inr t \<Rightarrow> Inr (Some t)))
      | _ \<Rightarrow> Inl TypeError)"

text \<open>Sequencing of steps that may raise: the first exception ends the computation.\<close>

definition and_then :: "error + 'a \<Rightarrow> ('a \<Rightarrow> error + 'b) \<Rightarrow> error + 'b" where
  "and_then m f = (case m of Inl e \<Rightarrow> Inl e | Inr x \<Rightarrow> f x)"

definition state_of_json :: "json \<Rightarrow> error + string" where
  "state_of_json j = (case j of JStr st \<Rightarrow> Inr st | _ \<Rightarrow> Inl TypeError)"

definition secs_of_json :: "json \<Rightarrow> error + int" where
  "secs_of_json j = (case j of JInt n \<Rightarrow> Inr n | _ \<Rightarrow> Inl TypeError)"

definition from_json :: "externals \<Rightarrow> json \<Rightarrow> error + Room" where
  "from_json E d =
     and_then (json_get d ''across_clues_filled'') (\<lambda>ja.
     and_then (filled_of_json ja) (\<lambda>acf.
     and_then (json_get d ''down_clues_filled'') (\<lambda>jd.
     and_then (filled_of_json jd) (\<lambda>dcf.
     and_then (json_get d ''last_start_time'') (\<lambda>jl.
     and_then (last_start_of_json E jl) (\<lambda>lst.
     and_then (json_get d ''play_pause_state'') (\<lambda>js.
     and_then (state_of_json js) (\<lambda>st.
     and_then (json_get d ''puzzle'') (\<lambda>jp.
     and_then (from_dict E jp) (\<lambda>p.
     and_then (json_get d ''cells'') (\<lambda>jc.
     and_then (grid_of_json jc) (\<lambda>g.
     and_then (json_get d ''total_time_secs'') (\<lambda>jt.
     and_then (secs_of_json jt) (\<lambda>n.
       Inr \<lparr>play_pause_state = st, puzzle = p, cells = g,
            across_clues_filled = acf, down_clues_filled = dcf,
            last_start_time = lst, total_time_secs = n\<rparr>))))))))))))))"

text \<open>
  The store: the redis database as a map from key to the saved document. Expiry
  times are not modelled.
\<close>

type_synonym db = "string \<rightharpoonup> json"

definition set_room :: "externals \<Rightarrow> string \<Rightarrow> Room \<Rightarrow> db \<Rightarrow> db" where
  "set_room E name room redis = redis((''room:'' @ name) \<mapsto> to_json E room)"

section \<open>Session engine\<close>

subsection \<open>Reading and writing cells\<close>

text \<open>
  \<open>cells[y][x]\<close> raises \<open>IndexError\<close> when the row or the column is out of range.
\<close>

definition get_cell :: "grid \<Rightarrow> nat \<Rightarrow> nat \<Rightarrow> error + cell" where
  "get_cell g x y =
     (if y < length g then (if x < length (g ! y) then Inr (g ! y ! x) else Inl IndexError)
      else Inl IndexError)"

definition set_cell :: "grid \<Rightarrow> nat \<Rightarrow> nat \<Rightarrow> cell \<Rightarrow> error + grid" where
  "set_cell g x y v =
     (if y < length g then
        (if x < length (g ! y) then Inr (g[y := (g ! y)[x := v]]) else Inl IndexError)
      else Inl IndexError)"

text \<open>
  What a call leaves behind: the value it returns or the exception it raises, the
  room object it was given (its \<open>cells\<close> list and its two dicts are updated in place,
  also when an exception ends the call), and the store.
\<close>

record 'a outcome =
  result :: "error + 'a"
  room_obj :: Room
  store :: db

subsection \<open>\<open>apply_answer\<close>\<close>

text \<open>The loop over \<open>zip(answer, coordinates)\<close> that writes the values.\<close>

fun write_answer :: "bool \<Rightarrow> (string \<times> nat \<times> nat) list \<Rightarrow> grid \<Rightarrow> error option \<times> grid" where
  "write_answer allow_clearing [] g = (None, g)"
| "write_answer allow_clearing ((v, (x, y)) # rest) g =
     (if allow_clearing \<or> v \<noteq> '''' then
        (case set_cell g x y (Some v) of
           Inl e \<Rightarrow> (Some e, g)
         | Inr g' \<Rightarrow> write_answer allow_clearing rest g')
      else write_answer allow_clearing rest g)"

text \<open>
  \<open>all(cells[y][x] != "" for (x, y) in ...)\<close> stops at the first blank cell, so a
  coordinate after it is not read.
\<close>

fun all_filled :: "grid \<Rightarrow> (nat \<times> nat) list \<Rightarrow> error + bool" where
  "all_filled g [] = Inr True"
| "all_filled g ((x, y) # rest) =
     (case get_cell g x y of
        Inl e \<Rightarrow> Inl e
      | Inr c \<Rightarrow> if c \<noteq> Some '''' then all_filled g rest else Inr False)"

text \<open>
  The loop \<open>for num in clues: filled[num] = all(...)\<close>, over the clue numbers of one
  direction; \<open>cells_of num\<close> are the coordinates of clue \<open>num\<close> in that direction.
\<close>

fun update_filled ::
  "(int \<Rightarrow> (nat \<times> nat) list) \<Rightarrow> grid \<Rightarrow> int list \<Rightarrow> bool dict \<Rightarrow> error option \<times> bool dict" where
  "update_filled cells_of g [] filled = (None, filled)"
| "update_filled cells_of g (num # nums) filled =
     (case all_filled g (cells_of num) of
        Inl e \<Rightarrow> (Some e, filled)
      | Inr b \<Rightarrow> update_filled cells_of g nums (AList.update num b filled))"

text \<open>
  The two loops that recompute the filled flags of every clue; the same lines stand in
  \<open>apply_answer\<close> and in \<open>clear_incorrect_cells\<close>.
\<close>

definition update_clues_filled :: "externals \<Rightarrow> Room \<Rightarrow> error option \<times> Room" where
  "update_clues_filled E room =
     (case update_filled (\<lambda>num. get_answer_cells E (puzzle room) num ''a'') (Room.cells room)
             (map fst (across_clues (puzzle room))) (across_clues_filled room) of
        (Some e, acf) \<Rightarrow> (Some e, room\<lparr>across_clues_filled := acf\<rparr>)
      | (None, acf) \<Rightarrow>
          (case update_filled (\<lambda>num. get_answer_cells E (puzzle room) num ''d'')
                  (Room.cells room) (map fst (down_clues (puzzle room)))
                  (down_clues_filled room) of
             (err, dcf) \<Rightarrow> (err, room\<lparr>across_clues_filled := acf, down_clues_filled := dcf\<rparr>)))"

text \<open>
  \<open>int(delta.total_seconds())\<close> for a \<open>timedelta\<close> of \<open>d\<close> microseconds: the
  seconds as a float, truncated toward zero. \<open>total_seconds\<close> is the quotient of
  \<open>d\<close> by \<open>10 ^ 6\<close> rounded to the nearest double. Below \<open>2 ^ 34\<close> seconds the
  doubles lie less than two microseconds apart, so the rounding moves the quotient by
  less than a microsecond and never reaches the next whole second: there the
  truncation is that of the exact quotient, which is what the definition computes.
  From \<open>2 ^ 34\<close> seconds on (some 544 years) the float can round up to the next
  second; such intervals are outside the model, and the properties below that speak
  of the value are stated for intervals below \<open>2 ^ 33\<close> seconds only.
\<close>

definition whole_seconds :: "int \<Rightarrow> int" where
  "whole_seconds d = (if 0 \<le> d then d div 1000000 else - ((- d) div 1000000))"

text \<open>
  The end of \<open>apply_answer\<close>, from the completion check on. \<open>now\<close> is the value of
  \<open>datetime.datetime.now()\<close>. Subtracting \<open>None\<close> from a \<open>datetime\<close> raises
  \<open>TypeError\<close>. \<open>attr.evolve\<close> makes a new room object, so the fields of the
  caller's object keep their values.
\<close>

definition check_complete :: "externals \<Rightarrow> datetime \<Rightarrow> Room \<Rightarrow> string \<Rightarrow> db \<Rightarrow> Room option outcome" where
  "check_complete E now room name redis =
     (if Room.cells room = Puzzle.cells (puzzle room) then
        (case last_start_time room of
           None \<Rightarrow> \<lparr>result = Inl TypeError, room_obj = room, store = redis\<rparr>
         | Some t \<Rightarrow>
             (let delta = now - t;
                  total_time_secs = total_time_secs room + whole_seconds delta;
                  room' = room\<lparr>play_pause_state := ''complete'', last_start_time := None,
                              total_time_secs := total_time_secs\<rparr>
              in \<lparr>result = Inr (Some room'), room_obj = room,
                  store = set_room E name room' redis\<rparr>))
      else \<lparr>result = Inr (Some room), room_obj = room, store = set_room E name room redis\<rparr>)"

definition apply_answer ::
  "externals \<Rightarrow> datetime \<Rightarrow> Room \<Rightarrow> string \<Rightarrow> string option \<Rightarrow> string \<Rightarrow> bool \<Rightarrow> db
     \<Rightarrow> Room option outcome" where
  "apply_answer E now room name clue answer allow_clearing redis =
     (case parse_clue clue of
        None \<Rightarrow> \<lparr>result = Inr None, room_obj = room, store = redis\<rparr>
      | Some (num, direction) \<Rightarrow>
          (case parse_answer answer of
             Inl e \<Rightarrow> \<lparr>result = Inl e, room_obj = room, store = redis\<rparr>
           | Inr answer' \<Rightarrow>
               (let coordinates = get_answer_cells E (puzzle room) num direction
                in if length answer' \<noteq> length coordinates
                   then \<lparr>result = Inr None, room_obj = room, store = redis\<rparr>
                   else
                     (case write_answer allow_clearing (zip answer' coordinates)
                             (Room.cells room) of
                        (Some e, g) \<Rightarrow>
                          \<lparr>result = Inl e, room_obj = room\<lparr>cells := g\<rparr>, store = redis\<rparr>
                      | (None, g) \<Rightarrow>
                          (case update_clues_filled E (room\<lparr>cells := g\<rparr>) of
                             (Some e, room1) \<Rightarrow>
                               \<lparr>result = Inl e, room_obj = room1, store = redis\<rparr>
                           | (None, room1) \<Rightarrow> check_complete E now room1 name redis)))))"

subsection \<open>\<open>clear_incorrect_cells\<close>\<close>

text \<open>
  The test \<open>cells[y][x] and cells[y][x] != puzzle.cells[y][x]\<close>: \<open>None\<close> and the
  empty string are false, and then the puzzle's cell is not read.
\<close>

definition truthy :: "cell \<Rightarrow> bool" where
  "truthy c = (case c of None \<Rightarrow> False | Some s \<Rightarrow> s \<noteq> '''')"

fun clear_row :: "grid \<Rightarrow> nat \<Rightarrow> nat list \<Rightarrow> grid \<Rightarrow> error option \<times> grid" where
  "clear_row solution y [] g = (None, g)"
| "clear_row solution y (x # xs) g =
     (case get_cell g x y of
        Inl e \<Rightarrow> (Some e, g)
      | Inr c \<Rightarrow>
          (if truthy c then
             (case get_cell solution x y of
                Inl e \<Rightarrow> (Some e, g)
              | Inr s \<Rightarrow>
                  (if c \<noteq> s then
                     (case set_cell g x y (Some '''') of
                        Inl e \<Rightarrow> (Some e, g)
                      | Inr g' \<Rightarrow> clear_row solution y xs g')
                   else clear_row solution y xs g))
           else clear_row solution y xs g))"

fun clear_rows :: "grid \<Rightarrow> nat \<Rightarrow> nat list \<Rightarrow> grid \<Rightarrow> error option \<times> grid" where
  "clear_rows solution n [] g = (None, g)"
| "clear_rows solution n (y # ys) g =
     (case clear_row solution y [0..<n] g of
        (Some e, g') \<Rightarrow> (Some e, g')
      | (None, g') \<Rightarrow> clear_rows solution n ys g')"

definition clear_incorrect_cells :: "externals \<Rightarrow> Room \<Rightarrow> string \<Rightarrow> db \<Rightarrow> Room outcome" where
  "clear_incorrect_cells E room name redis =
     (case clear_rows (Puzzle.cells (puzzle room)) (cols (puzzle room))
             [0..<rows (puzzle room)] (Room.cells room) of
        (Some e, g) \<Rightarrow> \<lparr>result = Inl e, room_obj = room\<lparr>cells := g\<rparr>, store = redis\<rparr>
      | (None, g) \<Rightarrow>
          (case update_clues_filled E (room\<lparr>cells := g\<rparr>) of
             (Some e, room1) \<Rightarrow> \<lparr>result = Inl e, room_obj = room1, store = redis\<rparr>
           | (None, room1) \<Rightarrow>
               \<lparr>result = Inr room1, room_obj = room1, store = set_room E name room1 redis\<rparr>))"

subsection \<open>\<open>play_pause\<close>\<close>

definition play_pause :: "externals \<Rightarrow> datetime \<Rightarrow> Room \<Rightarrow> string \<Rightarrow> db \<Rightarrow> Room outcome" where
  "play_pause E now room name redis =
     (let state = play_pause_state room;
          last_start_time = last_start_time room;
          total_time_secs = total_time_secs room
      in if state = ''created'' \<or> state = ''paused'' then
           (let room' = room\<lparr>play_pause_state := ''playing'', last_start_time := Some now,
                            total_time_secs := total_time_secs\<rparr>
            in \<lparr>result = Inr room', room_obj = room, store = set_room E name room' redis\<rparr>)
         else if state = ''playing'' then
           (case last_start_time of
              None \<Rightarrow> \<lparr>result = Inl TypeError, room_obj = room, store = redis\<rparr>
            | Some t \<Rightarrow>
                (let delta = now - t;
                     room' = room\<lparr>play_pause_state := ''paused'', last_start_time := None,
                                 total_time_secs := total_time_secs + whole_seconds delta\<rparr>
                 in \<lparr>result = Inr room', room_obj = room,
                     store = set_room E name room' redis\<rparr>))
         else
           (let room' = room\<lparr>play_pause_state := state, last_start_time := last_start_time,
                            total_time_secs := total_time_secs\<rparr>
            in \<lparr>result = Inr room', room_obj = room, store = set_room E name room' redis\<rparr>))"

section \<open>Reference notions and a small session\<close>

text \<open>
  The specification's reading of the elapsed interval: the whole seconds of a
  difference of \<open>d\<close> microseconds, rounded down.
\<close>

definition floor_seconds :: "int \<Rightarrow> int" where
  "floor_seconds d = d div 1000000"

text \<open>
  The intervals, in microseconds, that are shorter than \<open>2 ^ 33\<close> seconds: on them
  the float of \<open>total_seconds\<close> truncates to the exact whole seconds.
\<close>

definition short_interval :: "int \<Rightarrow> bool" where
  "short_interval d = (\<bar>d\<bar> < 2 ^ 33 * 1000000)"

text \<open>A room that is complete and whose timer is stopped.\<close>

definition stays_complete :: "Room \<Rightarrow> bool" where
  "stays_complete room = (play_pause_state room = ''complete'' \<and> last_start_time room = None)"

text \<open>
  A session to run the operations on: a puzzle of one row and three cells with the one
  across clue 1, whose solution is CAT, and collaborators that serve it.
\<close>

definition demo_puzzle :: Puzzle where
  "demo_puzzle =
     \<lparr>rows = 1, cols = 3, title = ''demo'', publisher = '''', published = (2019, 1, 1),
      author = '''', cells = [[Some ''C'', Some ''A'', Some ''T'']],
      cell_clue_numbers = [[1, 0, 0]], cell_circles = [[False, False, False]],
      across_clues = [(1, ''Pet'')], down_clues = []\<rparr>"

definition demo_externals :: externals where
  "demo_externals =
     \<lparr>get_answer_cells =
        (\<lambda>p num direction. if num = 1 \<and> direction = ''a'' then [(0, 0), (1, 0), (2, 0)] else []),
      to_dict = (\<lambda>p. JStr (title p)),
      from_dict = (\<lambda>j. if j = JStr ''demo'' then Inr demo_puzzle else Inl ValueError),
      isoformat = py_str,
      dateutil_parse = (\<lambda>s. case py_int s of None \<Rightarrow> Inl ValueError | Some t \<Rightarrow> Inr t)\<rparr>"

definition row3 :: "string \<Rightarrow> string \<Rightarrow> string \<Rightarrow> grid" where
  "row3 a b c = [[Some a, Some b, Some c]]"

definition demo_room :: "string \<Rightarrow> grid \<Rightarrow> bool \<Rightarrow> datetime option \<Rightarrow> Room" where
  "demo_room state g filled start =
     \<lparr>play_pause_state = state, puzzle = demo_puzzle, cells = g,
      across_clues_filled = [(1, filled)], down_clues_filled = [],
      last_start_time = start, total_time_secs = 0\<rparr>"

text \<open>A coordinate that lies within a grid, and the cell that the write policy leaves.\<close>

definition in_grid :: "grid \<Rightarrow> nat \<times> nat \<Rightarrow> bool" where
  "in_grid g c = (case c of (x, y) \<Rightarrow> y < length g \<and> x < length (g ! y))"

definition written :: "bool \<Rightarrow> string \<Rightarrow> cell \<Rightarrow> cell" where
  "written allow_clearing v old = (if allow_clearing \<or> v \<noteq> '''' then Some v else old)"

text \<open>
  The specification's filled flag: every cell of the clue holds a non-empty string in
  the grid. The flags of a room are correct when the flag stored for every clue number
  of the puzzle is that value.
\<close>

definition clue_filled :: "grid \<Rightarrow> (nat \<times> nat) list \<Rightarrow> bool" where
  "clue_filled g coordinates =
     list_all (\<lambda>(x, y). case get_cell g x y of Inr (Some s) \<Rightarrow> s \<noteq> '''' | _ \<Rightarrow> False) coordinates"

definition filled_flags_correct :: "externals \<Rightarrow> Room \<Rightarrow> bool" where
  "filled_flags_correct E room =
     (list_all (\<lambda>n. map_of (across_clues_filled room) n =
                  Some (clue_filled (Room.cells room) (get_answer_cells E (puzzle room) n ''a'')))
        (map fst (across_clues (puzzle room))) \<and>
      list_all (\<lambda>n. map_of (down_clues_filled room) n =
                  Some (clue_filled (Room.cells room) (get_answer_cells E (puzzle room) n ''d'')))
        (map fst (down_clues (puzzle room))))"

text \<open>
  No coordinate of a clue is a block of the grid. The puzzle store gives the cells of an
  answer, which take letters; the source tests a cell against the empty string only,
  so that a block would count as filled.
\<close>

definition no_block :: "grid \<Rightarrow> (nat \<times> nat) list \<Rightarrow> bool" where
  "no_block g coordinates = list_all (\<lambda>(x, y). get_cell g x y \<noteq> Inr None) coordinates"

definition clue_cells_not_blocks :: "externals \<Rightarrow> Room \<Rightarrow> bool" where
  "clue_cells_not_blocks E room =
     (list_all (\<lambda>n. no_block (Room.cells room) (get_answer_cells E (puzzle room) n ''a''))
        (map fst (across_clues (puzzle room))) \<and>
      list_all (\<lambda>n. no_block (Room.cells room) (get_answer_cells E (puzzle room) n ''d''))
        (map fst (down_clues (puzzle room))))"

text \<open>A puzzle of two rows and two columns, where every clue crosses two others.\<close>

definition cross_puzzle :: Puzzle where
  "cross_puzzle =
     \<lparr>rows = 2, cols = 2, title = ''cross'', publisher = '''', published = (2019, 1, 1),
      author = '''', cells = [[Some ''A'', Some ''B''], [Some ''C'', Some ''D'']],
      cell_clue_numbers = [[1, 2], [3, 0]], cell_circles = [[False, False], [False, False]],
      across_clues = [(1, ''first row''), (3, ''second row'')],
      down_clues = [(1, ''first column''), (2, ''second column'')]\<rparr>"

definition cross_externals :: externals where
  "cross_externals =
     demo_externals\<lparr>get_answer_cells :=
        (\<lambda>p num direction.
           if num = 1 \<and> direction = ''a'' then [(0, 0), (1, 0)]
           else if num = 3 \<and> direction = ''a'' then [(0, 1), (1, 1)]
           else if num = 1 \<and> direction = ''d'' then [(0, 0), (0, 1)]
           else if num = 2 \<and> direction = ''d'' then [(1, 0), (1, 1)]
           else [])\<rparr>"

definition cross_room :: "grid \<Rightarrow> bool dict \<Rightarrow> bool dict \<Rightarrow> Room" where
  "cross_room g across down =
     \<lparr>play_pause_state = ''playing'', puzzle = cross_puzzle, cells = g,
      across_clues_filled = across, down_clues_filled = down,
      last_start_time = Some 0, total_time_secs = 0\<rparr>"

text \<open>The second grid has a block wherever the first has one.\<close>

definition keeps_blocks :: "grid \<Rightarrow> grid \<Rightarrow> bool" where
  "keeps_blocks g g' = (\<forall>x y. get_cell g' x y = Inr None \<longrightarrow> get_cell g x y = Inr None)"

text \<open>The number that a string of decimal digits denotes, continuing from \<open>acc\<close>.\<close>

definition decimal :: "nat \<Rightarrow> string \<Rightarrow> nat" where
  "decimal acc ds = foldl (\<lambda>a c. a * 10 + digit_val c) acc ds"

text \<open>
  The clue references of the specification and the ones the code accepts: the letters
  of a direction, the direction a letter stands for, digits in groups that single
  underscores separate, an optional sign, and the whole form. Around the reference
  stands the whitespace that \<open>str.strip\<close> removes; between the number and the letter
  only the whitespace that \<open>int\<close> drops.
\<close>

definition direction_letter :: "char \<Rightarrow> bool" where
  "direction_letter c = (c \<in> {CHR ''a'', CHR ''A'', CHR ''d'', CHR ''D''})"

definition direction_of :: "char \<Rightarrow> string" where
  "direction_of c = (if c = CHR ''a'' \<or> c = CHR ''A'' then ''a'' else ''d'')"

fun digit_groups :: "string \<Rightarrow> bool" where
  "digit_groups [] = False"
| "digit_groups [c] = isdigit c"
| "digit_groups (c # d # cs) =
     (isdigit c \<and> (if d = CHR ''_'' then digit_groups cs else digit_groups (d # cs)))"

definition sign_prefix :: "string \<Rightarrow> bool" where
  "sign_prefix sg = (sg \<in> {'''', ''+'', ''-''})"

definition accepted_clue :: "string \<Rightarrow> bool" where
  "accepted_clue s =
     (\<exists>ws1 sg body ws2 c ws3.
        s = ws1 @ sg @ body @ ws2 @ [c] @ ws3 \<and>
        list_all isspace ws1 \<and> list_all int_space ws2 \<and> list_all isspace ws3 \<and>
        sign_prefix sg \<and> digit_groups body \<and> direction_letter c)"

section \<open>Properties of the answer grammar\<close>

lemma parse_answer_loop_returns:
  "(inParens \<longrightarrow> entries \<noteq> []) \<Longrightarrow> \<exists>r. parse_answer_loop s entries inParens = Inr r"
proof (induction s arbitrary: entries inParens)
  case Nil
  show ?case by simp
next
  case (Cons c cs)
  show ?case
  proof (cases "isspace c")
    case True
    with Cons show ?thesis by simp
  next
    case notspace: False
    show ?thesis
    proof (cases inParens)
      case True
      with Cons.prems have ne: "entries \<noteq> []" by simp
      show ?thesis
      proof (cases "c = CHR '')''")
        case True
        with notspace \<open>inParens\<close> Cons.IH [of False entries] show ?thesis by simp
      next
        case False
        have "\<exists>r. parse_answer_loop cs (butlast entries @ [last entries @ [c]]) True = Inr r"
          by (rule Cons.IH) simp
        with notspace \<open>inParens\<close> False ne show ?thesis
          by (simp add: append_to_last_def)
      qed
    next
      case False
      have open_group: "\<exists>r. parse_answer_loop cs (entries @ ['''']) True = Inr r"
        by (rule Cons.IH) simp
      have plain: "\<exists>r. parse_answer_loop cs (entries @ [if c \<noteq> CHR ''.'' then [c] else '''']) False = Inr r"
        by (rule Cons.IH) simp
      from notspace False open_group plain show ?thesis by simp
    qed
  qed
qed

text \<open>
  C8. The reference inputs of the answer grammar: \<open>(red)velvet\<close> gives the rebus
  entry \<open>red\<close> followed by the six letters of \<open>velvet\<close>; \<open>....s\<close> gives four
  empty entries and \<open>s\<close>; \<open>red velvet\<close> gives the nine letters, the blank skipped.
\<close>

theorem parse_answer_reference_inputs:
  "parse_answer ''(red)velvet'' = Inr [''red'', ''v'', ''e'', ''l'', ''v'', ''e'', ''t''] \<and>
   parse_answer ''....s'' = Inr ['''', '''', '''', '''', ''s''] \<and>
   parse_answer ''red velvet'' = Inr [''r'', ''e'', ''d'', ''v'', ''e'', ''l'', ''v'', ''e'', ''t'']"
  by (simp add: parse_answer_def isspace_def append_to_last_def)

text \<open>
  C10. \<open>parse_answer\<close> returns a list of strings on every input and never raises: the
  append to the last entry inside a group always finds an entry, because the list is
  not empty whenever the in-group flag is set.
\<close>

theorem parse_answer_total:
  "\<exists>entries. parse_answer answer = Inr entries"
  unfolding parse_answer_def by (rule parse_answer_loop_returns) simp

theorem parse_answer_total_witness:
  "parse_answer '')a(b'' = Inr ['')'', ''a'', ''b''] \<and> parse_answer '''' = Inr [] \<and>
   (\<exists>entries. parse_answer ''x(yz'' = Inr entries)"
  using parse_answer_total [of "''x(yz''"]
  by (simp add: parse_answer_def isspace_def append_to_last_def)

section \<open>Properties of the session engine\<close>

text \<open>
  C6, as amended. \<open>play_pause\<close> follows the table of four states: from \<open>created\<close>
  or \<open>paused\<close> it goes to \<open>playing\<close>, sets the start time to \<open>now\<close> and keeps
  the total; from \<open>playing\<close> it goes to \<open>paused\<close>, clears the start time and adds
  the whole seconds of \<open>now - last_start_time\<close>, truncated toward zero, which is the
  floor whenever the clock has not gone back, for an interval shorter than \<open>2 ^ 33\<close>
  seconds; from \<open>complete\<close> the room is returned as it is. Toggling at \<open>t0\<close> and
  again 90 seconds later adds 90 to the total, which makes it 90 when it was 0, and
  leaves no start time.
\<close>

theorem play_pause_table:
  "(play_pause_state room = ''created'' \<or> play_pause_state room = ''paused'' \<longrightarrow>
      play_pause E now room name redis =
        \<lparr>result = Inr (room\<lparr>play_pause_state := ''playing'', last_start_time := Some now\<rparr>),
         room_obj = room,
         store = set_room E name (room\<lparr>play_pause_state := ''playing'', last_start_time := Some now\<rparr>) redis\<rparr>) \<and>
   (play_pause_state room = ''playing'' \<and> last_start_time room = Some t \<and>
    short_interval (now - t) \<longrightarrow>
      play_pause E now room name redis =
        \<lparr>result = Inr (room\<lparr>play_pause_state := ''paused'', last_start_time := None,
                 total_time_secs := total_time_secs room + whole_seconds (now - t)\<rparr>),
         room_obj = room,
         store = set_room E name (room\<lparr>play_pause_state := ''paused'', last_start_time := None,
                 total_time_secs := total_time_secs room + whole_seconds (now - t)\<rparr>) redis\<rparr> \<and>
      whole_seconds (now - t) = sgn (now - t) * (\<bar>now - t\<bar> div 1000000) \<and>
      (t \<le> now \<longrightarrow> whole_seconds (now - t) = floor_seconds (now - t))) \<and>
   (play_pause_state room = ''complete'' \<longrightarrow>
      play_pause E now room name redis =
        \<lparr>result = Inr room, room_obj = room, store = set_room E name room redis\<rparr>) \<and>
   (play_pause_state room = ''created'' \<or> play_pause_state room = ''paused'' \<longrightarrow>
      (\<exists>r1 r2. result (play_pause E t0 room name redis) = Inr r1 \<and>
         result (play_pause E (t0 + 90 * 1000000) r1 name (store (play_pause E t0 room name redis))) = Inr r2 \<and>
         play_pause_state r2 = ''paused'' \<and> last_start_time r2 = None \<and>
         total_time_secs r2 = total_time_secs room + 90 \<and>
         (total_time_secs room = 0 \<longrightarrow> total_time_secs r2 = 90)))"
proof -
  have same: "play_pause_state room = ''complete'' \<Longrightarrow> room\<lparr>play_pause_state := ''complete''\<rparr> = room"
    by (cases room) simp
  show ?thesis
    by (auto simp add: play_pause_def Let_def whole_seconds_def floor_seconds_def sgn_if same)
qed

theorem play_pause_table_witness:
  "result (play_pause demo_externals 7 (demo_room ''created'' (row3 '''' '''' '''') False None) ''r'' Map.empty)
     = Inr (demo_room ''playing'' (row3 '''' '''' '''') False (Some 7)) \<and>
   result (play_pause demo_externals 90000007 (demo_room ''playing'' (row3 '''' '''' '''') False (Some 7)) ''r'' Map.empty)
     = Inr ((demo_room ''paused'' (row3 '''' '''' '''') False None)\<lparr>total_time_secs := 90\<rparr>) \<and>
   result (play_pause demo_externals 7 (demo_room ''complete'' (row3 ''C'' ''A'' ''T'') True None) ''r'' Map.empty)
     = Inr (demo_room ''complete'' (row3 ''C'' ''A'' ''T'') True None)"
  using play_pause_table [of "demo_room ''created'' (row3 '''' '''' '''') False None" demo_externals 7 "''r''" Map.empty 0 0]
    play_pause_table [of "demo_room ''playing'' (row3 '''' '''' '''') False (Some 7)" demo_externals 90000007 "''r''" Map.empty 7 0]
    play_pause_table [of "demo_room ''complete'' (row3 ''C'' ''A'' ''T'') True None" demo_externals 7 "''r''" Map.empty 0 0]
  by (simp add: demo_room_def whole_seconds_def short_interval_def)

text \<open>
  C6 as stated fails when the clock has gone back by a fraction of a second: with the
  start time half a second after \<open>now\<close> the code adds 0 seconds, and the floor of
  the difference is \<open>-1\<close>. The interval is half a second, where the float of
  \<open>total_seconds\<close> is exact.
\<close>

theorem play_pause_floor_counterexample:
  "result (play_pause demo_externals 0 (demo_room ''playing'' (row3 '''' '''' '''') False (Some 500000)) ''r'' Map.empty)
     = Inr (demo_room ''paused'' (row3 '''' '''' '''') False None) \<and>
   total_time_secs (demo_room ''paused'' (row3 '''' '''' '''') False None) = 0 \<and>
   total_time_secs (demo_room ''playing'' (row3 '''' '''' '''') False (Some 500000))
     + floor_seconds (0 - 500000) = - 1"
  by (simp add: play_pause_def Let_def demo_room_def whole_seconds_def floor_seconds_def)


lemma update_clues_filled_fields:
  assumes "update_clues_filled E room = (err, room1)"
  shows "play_pause_state room1 = play_pause_state room"
    and "last_start_time room1 = last_start_time room"
    and "total_time_secs room1 = total_time_secs room"
    and "puzzle room1 = puzzle room"
    and "Room.cells room1 = Room.cells room"
  using assms
  by (auto simp add: update_clues_filled_def split: prod.splits option.splits)

lemma check_complete_absent_start:
  assumes "last_start_time room = None"
  shows "check_complete E now room name redis =
           (if Room.cells room = Puzzle.cells (puzzle room)
            then \<lparr>result = Inl TypeError, room_obj = room, store = redis\<rparr>
            else \<lparr>result = Inr (Some room), room_obj = room, store = set_room E name room redis\<rparr>)"
  using assms by (simp add: check_complete_def)

text \<open>
  C4. When the clue reference parses and the parsed answer has another length than the
  clue has cells, \<open>apply_answer\<close> returns \<open>None\<close>, and neither the room object nor
  the store has changed.
\<close>

theorem apply_answer_length_mismatch:
  assumes "parse_clue clue = Some (num, direction)"
    and "parse_answer answer = Inr vals"
    and "length vals \<noteq> length (get_answer_cells E (puzzle room) num direction)"
  shows "apply_answer E now room name clue answer allow_clearing redis =
           \<lparr>result = Inr None, room_obj = room, store = redis\<rparr>"
  using assms by (simp add: apply_answer_def)

lemma apply_answer_stays_complete:
  assumes "stays_complete room"
  shows "stays_complete (room_obj (apply_answer E now room name clue answer allow_clearing redis)) \<and>
         (case result (apply_answer E now room name clue answer allow_clearing redis) of
            Inr (Some room') \<Rightarrow>
              stays_complete room' \<and>
              store (apply_answer E now room name clue answer allow_clearing redis) = set_room E name room' redis
          | _ \<Rightarrow> store (apply_answer E now room name clue answer allow_clearing redis) = redis)"
proof (cases "parse_clue clue")
  case None
  with assms show ?thesis by (simp add: apply_answer_def)
next
  case (Some nd)
  obtain num direction where nd: "nd = (num, direction)" by (cases nd)
  show ?thesis
  proof (cases "parse_answer answer")
    case (Inl e)
    with assms Some nd show ?thesis by (simp add: apply_answer_def)
  next
    case (Inr vals)
    show ?thesis
    proof (cases "length vals = length (get_answer_cells E (puzzle room) num direction)")
      case False
      with assms Some nd Inr show ?thesis by (simp add: apply_answer_def)
    next
      case True
      obtain werr g where w: "write_answer allow_clearing
          (zip vals (get_answer_cells E (puzzle room) num direction)) (Room.cells room) = (werr, g)"
        by (cases "write_answer allow_clearing
          (zip vals (get_answer_cells E (puzzle room) num direction)) (Room.cells room)")
      show ?thesis
      proof (cases werr)
        case (Some e)
        with assms \<open>parse_clue clue = Some nd\<close> nd Inr True w show ?thesis
          by (simp add: apply_answer_def stays_complete_def)
      next
        case None
        obtain uerr room1 where u: "update_clues_filled E (room\<lparr>cells := g\<rparr>) = (uerr, room1)"
          by (cases "update_clues_filled E (room\<lparr>cells := g\<rparr>)")
        from assms update_clues_filled_fields [OF u]
        have r1: "stays_complete room1" by (simp add: stays_complete_def)
        show ?thesis
        proof (cases uerr)
          case (Some e)
          with r1 \<open>parse_clue clue = Some nd\<close> nd Inr True w None u show ?thesis
            by (simp add: apply_answer_def)
        next
          case uNone: None
          from r1 have "last_start_time room1 = None" by (simp add: stays_complete_def)
          note cc = check_complete_absent_start [OF this, of E now name redis]
          from r1 \<open>parse_clue clue = Some nd\<close> nd Inr True w None u uNone show ?thesis
            by (simp add: apply_answer_def cc)
        qed
      qed
    qed
  qed
qed

lemma clear_incorrect_cells_stays_complete:
  assumes "stays_complete room"
  shows "stays_complete (room_obj (clear_incorrect_cells E room name redis)) \<and>
         (case result (clear_incorrect_cells E room name redis) of
            Inr room' \<Rightarrow>
              stays_complete room' \<and>
              store (clear_incorrect_cells E room name redis) = set_room E name room' redis
          | Inl e \<Rightarrow> store (clear_incorrect_cells E room name redis) = redis)"
proof -
  obtain cerr g where c: "clear_rows (Puzzle.cells (puzzle room)) (cols (puzzle room))
      [0..<rows (puzzle room)] (Room.cells room) = (cerr, g)"
    by (cases "clear_rows (Puzzle.cells (puzzle room)) (cols (puzzle room))
      [0..<rows (puzzle room)] (Room.cells room)")
  show ?thesis
  proof (cases cerr)
    case (Some e)
    with assms c show ?thesis by (simp add: clear_incorrect_cells_def stays_complete_def)
  next
    case None
    obtain uerr room1 where u: "update_clues_filled E (room\<lparr>cells := g\<rparr>) = (uerr, room1)"
      by (cases "update_clues_filled E (room\<lparr>cells := g\<rparr>)")
    from assms update_clues_filled_fields [OF u]
    have r1: "stays_complete room1" by (simp add: stays_complete_def)
    with c None u show ?thesis
      by (cases uerr) (simp_all add: clear_incorrect_cells_def)
  qed
qed

text \<open>
  C1. On a room that is complete, with no start time, \<open>apply_answer\<close> and
  \<open>clear_incorrect_cells\<close> never change the state or the start time: whether the
  call returns, rejects or raises, the caller's room object is complete with no start
  time, a returned room is so too, and the store holds either what it held or the
  returned room.
\<close>

theorem completion_monotone:
  assumes "play_pause_state room = ''complete''" and "last_start_time room = None"
  shows "stays_complete (room_obj (apply_answer E now room name clue answer allow_clearing redis)) \<and>
         (case result (apply_answer E now room name clue answer allow_clearing redis) of
            Inr (Some room') \<Rightarrow>
              stays_complete room' \<and>
              store (apply_answer E now room name clue answer allow_clearing redis) = set_room E name room' redis
          | _ \<Rightarrow> store (apply_answer E now room name clue answer allow_clearing redis) = redis) \<and>
         stays_complete (room_obj (clear_incorrect_cells E room name redis)) \<and>
         (case result (clear_incorrect_cells E room name redis) of
            Inr room' \<Rightarrow>
              stays_complete room' \<and>
              store (clear_incorrect_cells E room name redis) = set_room E name room' redis
          | Inl e \<Rightarrow> store (clear_incorrect_cells E room name redis) = redis)"
proof -
  from assms have "stays_complete room" by (simp add: stays_complete_def)
  from apply_answer_stays_complete [OF this] clear_incorrect_cells_stays_complete [OF this]
  show ?thesis by blast
qed

lemma parse_clue_1a: "parse_clue (Some ''1a'') = Some (1, ''a'')"
  by (simp add: parse_clue_def strip_def isspace_def py_int_def int_strip_def int_space_def isdigit_def digit_val_def
      lower_def lower_char_def Let_def)

lemma parse_answer_demo:
  "parse_answer ''..T'' = Inr ['''', '''', ''T'']"
  "parse_answer ''CAT'' = Inr [''C'', ''A'', ''T'']"
  "parse_answer ''dog'' = Inr [''d'', ''o'', ''g'']"
  "parse_answer ''CA'' = Inr [''C'', ''A'']"
  by (simp_all add: parse_answer_def isspace_def)

lemma upt_3: "[0..<3] = [0, 1, 2]"
  by (simp add: eval_nat_numeral)

lemmas demo_eval = upt_3 apply_answer_def clear_incorrect_cells_def check_complete_def
  update_clues_filled_def set_cell_def get_cell_def truthy_def demo_room_def demo_puzzle_def
  demo_externals_def row3_def parse_clue_1a parse_answer_demo Let_def

theorem apply_answer_length_mismatch_witness:
  "apply_answer demo_externals 5 (demo_room ''playing'' (row3 ''C'' '''' '''') False (Some 0)) ''r''
      (Some ''1a'') ''CA'' True Map.empty =
     \<lparr>result = Inr None,
      room_obj = demo_room ''playing'' (row3 ''C'' '''' '''') False (Some 0),
      store = Map.empty\<rparr>"
  using apply_answer_length_mismatch [of "Some ''1a''" 1 "''a''" "''CA''" "[''C'', ''A'']"
      demo_externals "demo_room ''playing'' (row3 ''C'' '''' '''') False (Some 0)" 5 "''r''" True Map.empty]
  by (simp add: parse_clue_1a parse_answer_demo demo_externals_def)

theorem completion_monotone_witness:
  "play_pause_state (demo_room ''complete'' (row3 ''C'' ''A'' ''T'') True None) = ''complete'' \<and>
   last_start_time (demo_room ''complete'' (row3 ''C'' ''A'' ''T'') True None) = None \<and>
   result (apply_answer demo_externals 5 (demo_room ''complete'' (row3 ''C'' ''A'' ''T'') True None)
      ''r'' (Some ''1a'') ''dog'' True Map.empty) =
     Inr (Some (demo_room ''complete'' (row3 ''d'' ''o'' ''g'') True None)) \<and>
   stays_complete (demo_room ''complete'' (row3 ''d'' ''o'' ''g'') True None) \<and>
   result (clear_incorrect_cells demo_externals (demo_room ''complete'' (row3 ''C'' ''A'' ''T'') True None)
      ''r'' Map.empty) =
     Inr (demo_room ''complete'' (row3 ''C'' ''A'' ''T'') True None)"
  using completion_monotone [of "demo_room ''complete'' (row3 ''C'' ''A'' ''T'') True None"
      demo_externals 5 "''r''" "Some ''1a''" "''dog''" True Map.empty]
  by (simp add: demo_eval stays_complete_def)

text \<open>
  C2 fails on the code. A room that is not playing has no start time; when an answer
  makes its grid equal to the solution, the completion branch subtracts \<open>None\<close> from
  the clock value and raises \<open>TypeError\<close>. This happens on a paused room whose last
  letter is filled in, on a created room, and on a complete room that receives its
  solution again.
\<close>

theorem apply_answer_completion_raises:
  "result (apply_answer demo_externals 5 (demo_room ''paused'' (row3 ''C'' ''A'' '''') False None)
      ''r'' (Some ''1a'') ''..T'' False Map.empty) = Inl TypeError \<and>
   result (apply_answer demo_externals 5 (demo_room ''created'' (row3 '''' '''' '''') False None)
      ''r'' (Some ''1a'') ''CAT'' False Map.empty) = Inl TypeError \<and>
   result (apply_answer demo_externals 5 (demo_room ''complete'' (row3 ''C'' ''A'' ''T'') True None)
      ''r'' (Some ''1a'') ''CAT'' False Map.empty) = Inl TypeError"
  by (simp add: demo_eval)

subsection \<open>Writing an answer\<close>

lemma grid_update_nth:
  "y < length g \<Longrightarrow> x < length (g ! y) \<Longrightarrow>
   g[y := (g ! y)[x := v]] ! y' ! x' = (if y' = y \<and> x' = x then v else g ! y' ! x')"
  by (cases "y' = y") (simp_all add: nth_list_update)

lemma row_length_update:
  "length (g[y := (g ! y)[x := v]] ! b) = length (g ! b)"
  by (cases "b = y"; cases "y < length g") (simp_all add: list_update_beyond)

lemma in_grid_update:
  "in_grid (g[y := (g ! y)[x := v]]) c = in_grid g c"
  by (cases c) (simp add: in_grid_def row_length_update)

lemma write_answer_pointwise:
  assumes "distinct (map snd ps)" and "\<forall>p \<in> set ps. in_grid g (snd p)"
  shows "fst (write_answer a ps g) = None \<and>
         (\<forall>(v, (x, y)) \<in> set ps. snd (write_answer a ps g) ! y ! x = written a v (g ! y ! x)) \<and>
         (\<forall>x y. (x, y) \<notin> snd ` set ps \<longrightarrow> snd (write_answer a ps g) ! y ! x = g ! y ! x)"
  using assms
proof (induction ps arbitrary: g)
  case Nil
  show ?case by simp
next
  case (Cons p ps)
  obtain v x y where p: "p = (v, (x, y))" by (cases p) auto
  from Cons.prems p have inr: "y < length g" "x < length (g ! y)"
    by (simp_all add: in_grid_def)
  from Cons.prems p have fresh: "(x, y) \<notin> snd ` set ps" and dist: "distinct (map snd ps)"
    by auto
  show ?case
  proof (cases "a \<or> v \<noteq> ''''")
    case True
    let ?g1 = "g[y := (g ! y)[x := Some v]]"
    have step: "write_answer a (p # ps) g = write_answer a ps ?g1"
      using True p inr by (simp add: set_cell_def)
    have "\<forall>q \<in> set ps. in_grid ?g1 (snd q)"
      using Cons.prems(2) by (simp add: in_grid_update)
    from Cons.IH [OF dist this]
    have ih1: "fst (write_answer a ps ?g1) = None"
      and ih2: "\<forall>(v', (x', y')) \<in> set ps. snd (write_answer a ps ?g1) ! y' ! x' = written a v' (?g1 ! y' ! x')"
      and ih3: "\<forall>x' y'. (x', y') \<notin> snd ` set ps \<longrightarrow> snd (write_answer a ps ?g1) ! y' ! x' = ?g1 ! y' ! x'"
      by blast+
    have head: "snd (write_answer a ps ?g1) ! y ! x = written a v (g ! y ! x)"
      using ih3 fresh inr True by (simp add: grid_update_nth written_def)
    have rest: "snd (write_answer a ps ?g1) ! y' ! x' = written a v' (g ! y' ! x')"
      if "(v', (x', y')) \<in> set ps" for v' x' y'
    proof -
      from that fresh have "(x', y') \<noteq> (x, y)" by force
      with inr have "?g1 ! y' ! x' = g ! y' ! x'" by (auto simp add: grid_update_nth)
      with ih2 that show ?thesis by fastforce
    qed
    have other: "snd (write_answer a ps ?g1) ! y' ! x' = g ! y' ! x'"
      if "(x', y') \<notin> snd ` set (p # ps)" for x' y'
    proof -
      from that p have ne: "(x', y') \<noteq> (x, y)" and "(x', y') \<notin> snd ` set ps" by auto
      with ih3 have "snd (write_answer a ps ?g1) ! y' ! x' = ?g1 ! y' ! x'" by blast
      with ne inr show ?thesis by (auto simp add: grid_update_nth)
    qed
    show ?thesis
      unfolding step using ih1 head rest other p by auto
  next
    case False
    have step: "write_answer a (p # ps) g = write_answer a ps g"
      using False p by simp
    from Cons.prems have "\<forall>q \<in> set ps. in_grid g (snd q)" by simp
    from Cons.IH [OF dist this]
    have ih1: "fst (write_answer a ps g) = None"
      and ih2: "\<forall>(v', (x', y')) \<in> set ps. snd (write_answer a ps g) ! y' ! x' = written a v' (g ! y' ! x')"
      and ih3: "\<forall>x' y'. (x', y') \<notin> snd ` set ps \<longrightarrow> snd (write_answer a ps g) ! y' ! x' = g ! y' ! x'"
      by blast+
    have head: "snd (write_answer a ps g) ! y ! x = written a v (g ! y ! x)"
      using ih3 fresh False by (simp add: written_def)
    show ?thesis
      unfolding step using ih1 ih2 ih3 head p by auto
  qed
qed

lemma check_complete_room_obj:
  "room_obj (check_complete E now room name redis) = room"
  by (simp add: check_complete_def Let_def split: option.splits)

lemma apply_answer_cells:
  assumes "parse_clue clue = Some (num, direction)"
    and "parse_answer answer = Inr vals"
    and "length vals = length (get_answer_cells E (puzzle room) num direction)"
  shows "Room.cells (room_obj (apply_answer E now room name clue answer a redis)) =
         snd (write_answer a (zip vals (get_answer_cells E (puzzle room) num direction))
                (Room.cells room))"
proof -
  obtain werr g where w: "write_answer a
      (zip vals (get_answer_cells E (puzzle room) num direction)) (Room.cells room) = (werr, g)"
    by (cases "write_answer a
      (zip vals (get_answer_cells E (puzzle room) num direction)) (Room.cells room)")
  obtain uerr room1 where u: "update_clues_filled E (room\<lparr>cells := g\<rparr>) = (uerr, room1)"
    by (cases "update_clues_filled E (room\<lparr>cells := g\<rparr>)")
  from update_clues_filled_fields(5) [OF u] have c1: "Room.cells room1 = g" by simp
  show ?thesis
  proof (cases werr)
    case (Some e)
    with assms w show ?thesis by (simp add: apply_answer_def)
  next
    case None
    with assms w u c1 show ?thesis
      by (cases uerr) (simp_all add: apply_answer_def check_complete_room_obj)
  qed
qed

text \<open>
  C7. When the clue parses, the answer has as many values as the clue has cells, and
  the cells are distinct positions of the grid: after \<open>apply_answer\<close> the cell of
  every (value, coordinate) pair holds the value if \<open>allow_clearing\<close> is set or the
  value is not empty, and what it held before otherwise; every other cell is as it
  was. The witness is the example of the specification: \<open>..T\<close> on C, A, T.
\<close>

theorem partial_write_policy:
  assumes "parse_clue clue = Some (num, direction)"
    and "parse_answer answer = Inr vals"
    and "length vals = length (get_answer_cells E (puzzle room) num direction)"
    and "distinct (get_answer_cells E (puzzle room) num direction)"
    and "\<forall>c \<in> set (get_answer_cells E (puzzle room) num direction). in_grid (Room.cells room) c"
  shows "(\<forall>i < length vals.
            case get_answer_cells E (puzzle room) num direction ! i of
              (x, y) \<Rightarrow>
                Room.cells (room_obj (apply_answer E now room name clue answer allow_clearing redis)) ! y ! x =
                  (if allow_clearing \<or> vals ! i \<noteq> '''' then Some (vals ! i)
                   else Room.cells room ! y ! x)) \<and>
         (\<forall>x y. (x, y) \<notin> set (get_answer_cells E (puzzle room) num direction) \<longrightarrow>
            Room.cells (room_obj (apply_answer E now room name clue answer allow_clearing redis)) ! y ! x =
              Room.cells room ! y ! x)"
proof -
  let ?cs = "get_answer_cells E (puzzle room) num direction"
  let ?ps = "zip vals ?cs"
  let ?g' = "Room.cells (room_obj (apply_answer E now room name clue answer allow_clearing redis))"
  have g': "?g' = snd (write_answer allow_clearing ?ps (Room.cells room))"
    by (rule apply_answer_cells [OF assms(1-3)])
  from assms(3) have snds: "map snd ?ps = ?cs" by simp
  with assms(4) have d: "distinct (map snd ?ps)" by simp
  have r: "\<forall>p \<in> set ?ps. in_grid (Room.cells room) (snd p)"
    using assms(5) by (auto dest: set_zip_rightD)
  from write_answer_pointwise [OF d r, of allow_clearing]
  have pw: "\<forall>(v, (x, y)) \<in> set ?ps. ?g' ! y ! x = written allow_clearing v (Room.cells room ! y ! x)"
    and other: "\<forall>x y. (x, y) \<notin> snd ` set ?ps \<longrightarrow> ?g' ! y ! x = Room.cells room ! y ! x"
    unfolding g' by blast+
  have first: "case ?cs ! i of (x, y) \<Rightarrow> ?g' ! y ! x =
      (if allow_clearing \<or> vals ! i \<noteq> '''' then Some (vals ! i) else Room.cells room ! y ! x)"
    if "i < length vals" for i
  proof -
    obtain x y where xy: "?cs ! i = (x, y)" by (cases "?cs ! i")
    from that assms(3) have "(vals ! i, ?cs ! i) \<in> set ?ps"
      by (auto simp add: set_zip)
    with pw xy have "?g' ! y ! x = written allow_clearing (vals ! i) (Room.cells room ! y ! x)"
      by fastforce
    with xy show ?thesis by (simp add: written_def)
  qed
  have "snd ` set ?ps = set ?cs"
    using snds by (metis set_map)
  with other first show ?thesis by simp
qed

theorem partial_write_policy_witness:
  "Room.cells (room_obj (apply_answer demo_externals 5
      (demo_room ''playing'' (row3 ''C'' ''A'' ''T'') True (Some 0)) ''r'' (Some ''1a'') ''..T'' False Map.empty))
     = row3 ''C'' ''A'' ''T'' \<and>
   Room.cells (room_obj (apply_answer demo_externals 5
      (demo_room ''playing'' (row3 ''C'' ''A'' ''T'') True (Some 0)) ''r'' (Some ''1a'') ''..T'' True Map.empty))
     = row3 '''' '''' ''T''"
  using partial_write_policy [of "Some ''1a''" 1 "''a''" "''..T''" "['''', '''', ''T'']" demo_externals
      "demo_room ''playing'' (row3 ''C'' ''A'' ''T'') True (Some 0)" 5 "''r''" False Map.empty]
    partial_write_policy [of "Some ''1a''" 1 "''a''" "''..T''" "['''', '''', ''T'']" demo_externals
      "demo_room ''playing'' (row3 ''C'' ''A'' ''T'') True (Some 0)" 5 "''r''" True Map.empty]
  by (simp add: demo_eval in_grid_def)

subsection \<open>The filled flags\<close>

lemma keeps_blocks_refl: "keeps_blocks g g"
  by (simp add: keeps_blocks_def)

lemma keeps_blocks_trans: "keeps_blocks g g1 \<Longrightarrow> keeps_blocks g1 g2 \<Longrightarrow> keeps_blocks g g2"
  by (simp add: keeps_blocks_def)

lemma keeps_blocks_set_cell:
  assumes "set_cell g x y (Some v) = Inr g1"
  shows "keeps_blocks g g1"
proof -
  from assms have inr: "y < length g" "x < length (g ! y)"
    and g1: "g1 = g[y := (g ! y)[x := Some v]]"
    by (auto simp add: set_cell_def split: if_splits)
  have "get_cell g x' y' = Inr None" if "get_cell g1 x' y' = Inr None" for x' y'
  proof -
    from that have r: "y' < length g1" "x' < length (g1 ! y')" and n: "g1 ! y' ! x' = None"
      by (auto simp add: get_cell_def split: if_splits)
    from r g1 have r': "y' < length g" "x' < length (g ! y')"
      by (simp_all add: row_length_update)
    from n g1 inr have "g ! y' ! x' = None"
      by (auto simp add: grid_update_nth split: if_splits)
    with r' show ?thesis by (simp add: get_cell_def)
  qed
  then show ?thesis by (simp add: keeps_blocks_def)
qed

lemma write_answer_keeps_blocks:
  "keeps_blocks g (snd (write_answer a ps g))"
proof (induction ps arbitrary: g)
  case Nil
  show ?case by (simp add: keeps_blocks_refl)
next
  case (Cons p ps)
  obtain v x y where p: "p = (v, (x, y))" by (cases p) auto
  show ?case
  proof (cases "a \<or> v \<noteq> ''''")
    case False
    with p Cons.IH [of g] show ?thesis by simp
  next
    case True
    show ?thesis
    proof (cases "set_cell g x y (Some v)")
      case (Inl e)
      with True p show ?thesis by (simp add: keeps_blocks_refl)
    next
      case (Inr g1)
      from keeps_blocks_set_cell [OF Inr] Cons.IH [of g1]
      have "keeps_blocks g (snd (write_answer a ps g1))" by (rule keeps_blocks_trans)
      with True p Inr show ?thesis by simp
    qed
  qed
qed

lemma clear_row_keeps_blocks:
  "keeps_blocks g (snd (clear_row solution y xs g))"
proof (induction xs arbitrary: g)
  case Nil
  show ?case by (simp add: keeps_blocks_refl)
next
  case (Cons x xs)
  show ?case
  proof (cases "set_cell g x y (Some '''')")
    case (Inl e)
    with Cons.IH [of g] show ?thesis
      by (simp add: keeps_blocks_refl split: sum.splits)
  next
    case (Inr g1)
    from keeps_blocks_set_cell [OF Inr] Cons.IH [of g1]
    have "keeps_blocks g (snd (clear_row solution y xs g1))" by (rule keeps_blocks_trans)
    with Inr Cons.IH [of g] show ?thesis
      by (simp add: keeps_blocks_refl split: sum.splits)
  qed
qed

lemma clear_rows_keeps_blocks:
  "keeps_blocks g (snd (clear_rows solution n ys g))"
proof (induction ys arbitrary: g)
  case Nil
  show ?case by (simp add: keeps_blocks_refl)
next
  case (Cons y ys)
  obtain e g1 where c: "clear_row solution y [0..<n] g = (e, g1)"
    by (cases "clear_row solution y [0..<n] g")
  from clear_row_keeps_blocks [of g solution y "[0..<n]"] c
  have k1: "keeps_blocks g g1" by simp
  show ?case
  proof (cases e)
    case (Some err)
    with c k1 show ?thesis by simp
  next
    case None
    from k1 Cons.IH [of g1] have "keeps_blocks g (snd (clear_rows solution n ys g1))"
      by (rule keeps_blocks_trans)
    with c None show ?thesis by simp
  qed
qed

lemma no_block_kept:
  "keeps_blocks g g' \<Longrightarrow> no_block g cs \<Longrightarrow> no_block g' cs"
  by (auto simp add: keeps_blocks_def no_block_def list_all_iff)

lemma all_filled_clue_filled:
  "all_filled g cs = Inr b \<Longrightarrow> no_block g cs \<Longrightarrow> b = clue_filled g cs"
proof (induction cs)
  case Nil
  then show ?case by (simp add: clue_filled_def)
next
  case (Cons c cs)
  obtain x y where c: "c = (x, y)" by (cases c)
  from Cons.prems(1) c obtain v where v: "get_cell g x y = Inr v"
    by (cases "get_cell g x y") auto
  from Cons.prems(2) c v obtain s where s: "v = Some s"
    by (cases v) (auto simp add: no_block_def)
  from Cons.prems(2) have nb: "no_block g cs" by (simp add: no_block_def)
  show ?case
  proof (cases "s = ''''")
    case True
    with Cons.prems(1) c v s show ?thesis by (simp add: clue_filled_def)
  next
    case False
    with Cons.prems(1) c v s have "all_filled g cs = Inr b" by simp
    from Cons.IH [OF this nb] c v s False show ?thesis by (simp add: clue_filled_def)
  qed
qed

lemma update_filled_other:
  "update_filled c g nums d = (e, d') \<Longrightarrow> n \<notin> set nums \<Longrightarrow> map_of d' n = map_of d n"
proof (induction nums arbitrary: d)
  case Nil
  then show ?case by simp
next
  case (Cons m ms)
  show ?case
  proof (cases "all_filled g (c m)")
    case (Inl err)
    with Cons.prems show ?thesis by simp
  next
    case (Inr b)
    with Cons.prems have "update_filled c g ms (AList.update m b d) = (e, d')" by simp
    from Cons.IH [OF this] Cons.prems(2) show ?thesis by (simp add: update_conv')
  qed
qed

lemma update_filled_flag:
  "update_filled c g nums d = (None, d') \<Longrightarrow> n \<in> set nums \<Longrightarrow>
   \<exists>b. all_filled g (c n) = Inr b \<and> map_of d' n = Some b"
proof (induction nums arbitrary: d)
  case Nil
  then show ?case by simp
next
  case (Cons m ms)
  show ?case
  proof (cases "all_filled g (c m)")
    case (Inl err)
    with Cons.prems show ?thesis by simp
  next
    case (Inr b)
    with Cons.prems have rec: "update_filled c g ms (AList.update m b d) = (None, d')" by simp
    show ?thesis
    proof (cases "n \<in> set ms")
      case True
      from Cons.IH [OF rec True] show ?thesis .
    next
      case False
      with Cons.prems(2) have nm: "n = m" by simp
      from update_filled_other [OF rec False] have "map_of d' n = Some b"
        using nm by (simp add: update_conv')
      with Inr nm show ?thesis by simp
    qed
  qed
qed

lemma update_clues_filled_correct:
  assumes "update_clues_filled E room = (None, room1)"
    and "clue_cells_not_blocks E room"
  shows "filled_flags_correct E room1"
proof -
  let ?ca = "\<lambda>num. get_answer_cells E (puzzle room) num ''a''"
  let ?cd = "\<lambda>num. get_answer_cells E (puzzle room) num ''d''"
  let ?ka = "map fst (across_clues (puzzle room))"
  let ?kd = "map fst (down_clues (puzzle room))"
  obtain acf where a: "update_filled ?ca (Room.cells room) ?ka (across_clues_filled room) = (None, acf)"
    using assms(1)
    by (auto simp add: update_clues_filled_def split: prod.splits option.splits)
  with assms(1) obtain dcf where d: "update_filled ?cd (Room.cells room) ?kd (down_clues_filled room) = (None, dcf)"
    and r1: "room1 = room\<lparr>across_clues_filled := acf, down_clues_filled := dcf\<rparr>"
    by (auto simp add: update_clues_filled_def split: prod.splits option.splits)
  have across: "map_of acf n = Some (clue_filled (Room.cells room) (?ca n))" if "n \<in> set ?ka" for n
  proof -
    from update_filled_flag [OF a that] obtain b
      where b: "all_filled (Room.cells room) (?ca n) = Inr b" "map_of acf n = Some b" by blast
    from assms(2) that have "no_block (Room.cells room) (?ca n)"
      by (auto simp add: clue_cells_not_blocks_def list_all_iff)
    from all_filled_clue_filled [OF b(1) this] b(2) show ?thesis by simp
  qed
  have down: "map_of dcf n = Some (clue_filled (Room.cells room) (?cd n))" if "n \<in> set ?kd" for n
  proof -
    from update_filled_flag [OF d that] obtain b
      where b: "all_filled (Room.cells room) (?cd n) = Inr b" "map_of dcf n = Some b" by blast
    from assms(2) that have "no_block (Room.cells room) (?cd n)"
      by (auto simp add: clue_cells_not_blocks_def list_all_iff)
    from all_filled_clue_filled [OF b(1) this] b(2) show ?thesis by simp
  qed
  from across down r1 show ?thesis
    by (simp add: filled_flags_correct_def list_all_iff)
qed

lemma clue_cells_not_blocks_kept:
  assumes "clue_cells_not_blocks E room" and "keeps_blocks (Room.cells room) g"
  shows "clue_cells_not_blocks E (room\<lparr>cells := g\<rparr>)"
  using assms by (auto simp add: clue_cells_not_blocks_def list_all_iff intro: no_block_kept)

lemma filled_flags_correct_fields:
  assumes "puzzle r' = puzzle r" and "Room.cells r' = Room.cells r"
    and "across_clues_filled r' = across_clues_filled r"
    and "down_clues_filled r' = down_clues_filled r"
  shows "filled_flags_correct E r' = filled_flags_correct E r"
  using assms by (simp add: filled_flags_correct_def)

lemma check_complete_result:
  assumes "result (check_complete E now room name redis) = Inr (Some room')"
  shows "puzzle room' = puzzle room \<and> Room.cells room' = Room.cells room \<and>
         across_clues_filled room' = across_clues_filled room \<and>
         down_clues_filled room' = down_clues_filled room"
  using assms by (auto simp add: check_complete_def Let_def split: if_splits option.splits)

text \<open>
  C5. Provided that no cell of a clue is a block of the room's grid: the room that
  \<open>apply_answer\<close> returns when it does not reject, and the room that
  \<open>clear_incorrect_cells\<close> returns, have for every across clue number \<open>n\<close> of the
  puzzle the flag \<open>across_clues_filled[n]\<close> equal to "every cell of clue \<open>n\<close> across
  holds a non-empty string", and likewise for every down clue. The witness fills a
  row of a two by two puzzle, which fills both columns as well.
\<close>

theorem filled_flags_recomputed:
  assumes "clue_cells_not_blocks E room"
  shows "(\<forall>room'. result (apply_answer E now room name clue answer allow_clearing redis) = Inr (Some room')
            \<longrightarrow> filled_flags_correct E room') \<and>
         (\<forall>room'. result (clear_incorrect_cells E room name redis) = Inr room'
            \<longrightarrow> filled_flags_correct E room')"
proof (intro conjI allI impI)
  fix room'
  assume res: "result (apply_answer E now room name clue answer allow_clearing redis) = Inr (Some room')"
  from res obtain num direction where pc: "parse_clue clue = Some (num, direction)"
    by (cases "parse_clue clue") (auto simp add: apply_answer_def)
  from res pc obtain vals where pa: "parse_answer answer = Inr vals"
    by (cases "parse_answer answer") (auto simp add: apply_answer_def)
  let ?cs = "get_answer_cells E (puzzle room) num direction"
  from res pc pa have len: "length vals = length ?cs"
    by (auto simp add: apply_answer_def Let_def split: if_splits)
  obtain werr g where w: "write_answer allow_clearing (zip vals ?cs) (Room.cells room) = (werr, g)"
    by (cases "write_answer allow_clearing (zip vals ?cs) (Room.cells room)")
  from res pc pa len w have wn: "werr = None"
    by (cases werr) (auto simp add: apply_answer_def)
  obtain uerr room1 where u: "update_clues_filled E (room\<lparr>cells := g\<rparr>) = (uerr, room1)"
    by (cases "update_clues_filled E (room\<lparr>cells := g\<rparr>)")
  from res pc pa len w wn u have un: "uerr = None"
    by (cases uerr) (auto simp add: apply_answer_def)
  from res pc pa len w wn u un
  have cc: "result (check_complete E now room1 name redis) = Inr (Some room')"
    by (simp add: apply_answer_def)
  from write_answer_keeps_blocks [of "Room.cells room" allow_clearing "zip vals ?cs"] w
  have "keeps_blocks (Room.cells room) g" by simp
  from clue_cells_not_blocks_kept [OF assms this]
  have "clue_cells_not_blocks E (room\<lparr>cells := g\<rparr>)" .
  from update_clues_filled_correct [OF u [unfolded un] this]
  have "filled_flags_correct E room1" .
  with check_complete_result [OF cc] show "filled_flags_correct E room'"
    by (simp add: filled_flags_correct_def)
next
  fix room'
  assume res: "result (clear_incorrect_cells E room name redis) = Inr room'"
  obtain cerr g where c: "clear_rows (Puzzle.cells (puzzle room)) (cols (puzzle room))
      [0..<rows (puzzle room)] (Room.cells room) = (cerr, g)"
    by (cases "clear_rows (Puzzle.cells (puzzle room)) (cols (puzzle room))
      [0..<rows (puzzle room)] (Room.cells room)")
  from res c have cn: "cerr = None"
    by (cases cerr) (auto simp add: clear_incorrect_cells_def)
  obtain uerr room1 where u: "update_clues_filled E (room\<lparr>cells := g\<rparr>) = (uerr, room1)"
    by (cases "update_clues_filled E (room\<lparr>cells := g\<rparr>)")
  from res c cn u have un: "uerr = None"
    by (cases uerr) (auto simp add: clear_incorrect_cells_def)
  from res c cn u un have r': "room' = room1"
    by (simp add: clear_incorrect_cells_def)
  from clear_rows_keeps_blocks [of "Room.cells room" "Puzzle.cells (puzzle room)"
      "cols (puzzle room)" "[0..<rows (puzzle room)]"] c
  have "keeps_blocks (Room.cells room) g" by simp
  from clue_cells_not_blocks_kept [OF assms this]
  have "clue_cells_not_blocks E (room\<lparr>cells := g\<rparr>)" .
  from update_clues_filled_correct [OF u [unfolded un] this] r'
  show "filled_flags_correct E room'" by simp
qed

lemma parse_answer_AB: "parse_answer ''AB'' = Inr [''A'', ''B'']"
  by (simp add: parse_answer_def isspace_def)

lemma upt_2: "[0..<2] = [0, 1]"
  by (simp add: eval_nat_numeral)

lemmas cross_eval = upt_2 apply_answer_def clear_incorrect_cells_def check_complete_def
  update_clues_filled_def set_cell_def get_cell_def truthy_def cross_room_def cross_puzzle_def
  cross_externals_def demo_externals_def parse_clue_1a parse_answer_AB Let_def
  clue_cells_not_blocks_def no_block_def filled_flags_correct_def clue_filled_def

theorem filled_flags_recomputed_witness:
  "clue_cells_not_blocks cross_externals
     (cross_room [[Some '''', Some ''''], [Some ''X'', Some ''D'']]
        [(1, False), (3, True)] [(1, False), (2, False)]) \<and>
   result (apply_answer cross_externals 9
     (cross_room [[Some '''', Some ''''], [Some ''X'', Some ''D'']]
        [(1, False), (3, True)] [(1, False), (2, False)])
     ''r'' (Some ''1a'') ''AB'' False Map.empty) =
     Inr (Some (cross_room [[Some ''A'', Some ''B''], [Some ''X'', Some ''D'']]
        [(1, True), (3, True)] [(1, True), (2, True)])) \<and>
   filled_flags_correct cross_externals
     (cross_room [[Some ''A'', Some ''B''], [Some ''X'', Some ''D'']]
        [(1, True), (3, True)] [(1, True), (2, True)]) \<and>
   result (clear_incorrect_cells cross_externals
     (cross_room [[Some ''A'', Some ''B''], [Some ''X'', Some ''D'']]
        [(1, True), (3, True)] [(1, True), (2, True)]) ''r'' Map.empty) =
     Inr (cross_room [[Some ''A'', Some ''B''], [Some '''', Some ''D'']]
        [(1, True), (3, False)] [(1, False), (2, True)])"
  using filled_flags_recomputed [of cross_externals
      "cross_room [[Some '''', Some ''''], [Some ''X'', Some ''D'']]
        [(1, False), (3, True)] [(1, False), (2, False)]" 9 "''r''" "Some ''1a''" "''AB''" False Map.empty]
  by (simp add: cross_eval)

section \<open>Properties of the serialisation\<close>

lemma isdigit_not_underscore: "isdigit c \<Longrightarrow> c \<noteq> CHR ''_''"
  by (auto simp add: isdigit_def)

lemma isdigit_not_space: "isdigit c \<Longrightarrow> \<not> isspace c"
  by (auto simp add: isdigit_def isspace_def)

lemma int_space_isspace: "int_space c \<Longrightarrow> isspace c"
  by (auto simp add: int_space_def isspace_def)

lemma isdigit_not_int_space: "isdigit c \<Longrightarrow> \<not> int_space c"
  using isdigit_not_space int_space_isspace by blast

lemma isdigit_not_sign: "isdigit c \<Longrightarrow> c \<noteq> CHR ''-'' \<and> c \<noteq> CHR ''+''"
  by (auto simp add: isdigit_def)

lemma int_digits_digits:
  "list_all isdigit ds \<Longrightarrow> ds \<noteq> [] \<Longrightarrow>
   int_digits p acc (ds @ rest) = int_digits (last ds) (decimal acc ds) rest"
proof (induction ds arbitrary: p acc)
  case Nil
  then show ?case by simp
next
  case (Cons d ds)
  from Cons.prems have d: "isdigit d" "d \<noteq> CHR ''_''"
    by (simp_all add: isdigit_not_underscore)
  show ?case
  proof (cases "ds = []")
    case True
    with d show ?thesis by (simp add: decimal_def)
  next
    case False
    from Cons.prems have "list_all isdigit ds" by simp
    from Cons.IH [OF this False] d False show ?thesis by (simp add: decimal_def)
  qed
qed

lemma int_digits_all_digits:
  assumes "list_all isdigit ds" and "ds \<noteq> []"
  shows "int_digits p acc ds = Some (decimal acc ds)"
proof -
  from assms have "isdigit (last ds)" by (simp add: list_all_iff)
  then have "last ds \<noteq> CHR ''_''" by (rule isdigit_not_underscore)
  with int_digits_digits [OF assms, of p acc "[]"] show ?thesis by simp
qed

lemma digit_char: "d < 10 \<Longrightarrow> isdigit (char_of (48 + d)) \<and> digit_val (char_of (48 + d)) = d"
  by (simp add: isdigit_def digit_val_def)

lemma str_of_nat_digits: "list_all isdigit (str_of_nat n) \<and> str_of_nat n \<noteq> []"
proof (induction n rule: str_of_nat.induct)
  case (1 n)
  show ?case
  proof (cases "n < 10")
    case True
    then show ?thesis by (subst (1 2) str_of_nat.simps) (simp add: digit_char)
  next
    case False
    with 1 have "list_all isdigit (str_of_nat (n div 10))" by simp
    moreover have "isdigit (char_of (48 + n mod 10))" by (simp add: digit_char)
    ultimately show ?thesis using False
      by (subst (1 2) str_of_nat.simps) simp
  qed
qed

lemma decimal_append: "decimal acc (xs @ ys) = decimal (decimal acc xs) ys"
  by (simp add: decimal_def)

lemma decimal_str_of_nat: "decimal 0 (str_of_nat n) = n"
proof (induction n rule: str_of_nat.induct)
  case (1 n)
  show ?case
  proof (cases "n < 10")
    case True
    then show ?thesis
      by (subst str_of_nat.simps) (simp add: decimal_def digit_char)
  next
    case False
    with 1 have ih: "decimal 0 (str_of_nat (n div 10)) = n div 10" by simp
    have "decimal 0 (str_of_nat (n div 10) @ [char_of (48 + n mod 10)]) =
          (n div 10) * 10 + n mod 10"
      unfolding decimal_append ih by (simp add: decimal_def digit_char)
    with False show ?thesis by (subst str_of_nat.simps) simp
  qed
qed

lemma dropWhile_id: "xs \<noteq> [] \<Longrightarrow> \<not> P (hd xs) \<Longrightarrow> dropWhile P xs = xs"
  by (cases xs) simp_all

lemma trim_id:
  assumes "s \<noteq> []" and "\<not> P (hd s)" and "\<not> P (last s)"
  shows "rev (dropWhile P (rev (dropWhile P s))) = s"
proof -
  from assms(1,2) have a: "dropWhile P s = s" by (rule dropWhile_id)
  from assms(1) have "hd (rev s) = last s" by (simp add: hd_rev)
  with assms(1,3) have "dropWhile P (rev s) = rev s" by (simp add: dropWhile_id)
  with a show ?thesis by simp
qed

lemma int_strip_id:
  assumes "s \<noteq> []" and "\<not> int_space (hd s)" and "\<not> int_space (last s)"
  shows "int_strip s = s"
  unfolding int_strip_def using assms by (rule trim_id)

lemma py_int_digits:
  assumes "list_all isdigit ds" and "ds \<noteq> []"
  shows "py_int ds = Some (int (decimal 0 ds))"
    and "py_int (CHR ''-'' # ds) = Some (- int (decimal 0 ds))"
proof -
  from assms have h: "isdigit (hd ds)" and l: "isdigit (last ds)"
    by (cases ds, simp_all add: list_all_iff)+
  from h l assms(2) have st: "int_strip ds = ds"
    by (simp add: int_strip_id isdigit_not_int_space)
  from h show "py_int ds = Some (int (decimal 0 ds))"
    using assms isdigit_not_sign [OF h] isdigit_not_underscore [OF h]
    by (simp add: py_int_def st Let_def int_digits_all_digits)
  have "\<not> int_space (CHR ''-'')" by (simp add: int_space_def)
  with l assms(2) have st': "int_strip (CHR ''-'' # ds) = CHR ''-'' # ds"
    by (simp add: int_strip_id isdigit_not_int_space)
  show "py_int (CHR ''-'' # ds) = Some (- int (decimal 0 ds))"
    using assms isdigit_not_underscore [OF h]
    by (simp add: py_int_def st' Let_def int_digits_all_digits)
qed

lemma py_int_py_str: "py_int (py_str i) = Some i"
  using str_of_nat_digits py_int_digits [of "str_of_nat (nat i)"] py_int_digits [of "str_of_nat (nat (- i))"]
  by (simp add: py_str_def decimal_str_of_nat)

lemma py_str_nonempty: "py_str i \<noteq> ''''"
  using str_of_nat_digits by (simp add: py_str_def)

lemma py_str_inj: "inj py_str"
  by (rule inj_on_inverseI [where g = "\<lambda>s. the (py_int s)"]) (simp add: py_int_py_str)

lemma update_fresh: "k \<notin> fst ` set xs \<Longrightarrow> AList.update k v xs = xs @ [(k, v)]"
  by (induction xs) auto

lemma loaded_items_distinct:
  "distinct (map fst kvs) \<Longrightarrow> fst ` set acc \<inter> fst ` set kvs = {} \<Longrightarrow>
   foldl (\<lambda>acc (k, v). AList.update k v acc) acc kvs = acc @ kvs"
proof (induction kvs arbitrary: acc)
  case Nil
  show ?case by simp
next
  case (Cons p kvs)
  obtain k v where p: "p = (k, v)" by (cases p)
  from Cons.prems p have fresh: "k \<notin> fst ` set acc" by auto
  from Cons.prems p have "distinct (map fst kvs)"
    and "fst ` set (acc @ [(k, v)]) \<inter> fst ` set kvs = {}" by auto
  from Cons.IH [OF this] fresh p show ?case by (simp add: update_fresh)
qed

lemma int_keys_dumped:
  "distinct (map fst d) \<Longrightarrow> fst ` set acc \<inter> fst ` set d = {} \<Longrightarrow>
   int_keys (map (\<lambda>(n, v). (py_str n, JBool v)) d) acc = Inr (acc @ d)"
proof (induction d arbitrary: acc)
  case Nil
  show ?case by simp
next
  case (Cons p d)
  obtain k v where p: "p = (k, v)" by (cases p)
  from Cons.prems p have fresh: "k \<notin> fst ` set acc" by auto
  from Cons.prems p have "distinct (map fst d)"
    and "fst ` set (acc @ [(k, v)]) \<inter> fst ` set d = {}" by auto
  from Cons.IH [OF this] fresh p show ?case by (simp add: update_fresh py_int_py_str)
qed

lemma dumped_keys_distinct:
  assumes "distinct (map fst d)"
  shows "distinct (map fst (map (\<lambda>(n, v). (py_str n, JBool v)) d))"
proof -
  have eq: "map fst (map (\<lambda>(n, v). (py_str n, JBool v)) d) = map py_str (map fst d)"
    by (induction d) auto
  have "inj_on py_str (set (map fst d))"
    using py_str_inj by (rule inj_on_subset) simp
  with assms have "distinct (map py_str (map fst d))"
    by (simp only: distinct_map)
  then show ?thesis by (simp only: eq)
qed

lemma filled_roundtrip:
  assumes "distinct (map fst d)"
  shows "filled_of_json (json_of_filled d) = Inr d"
proof -
  have "loaded_items (map (\<lambda>(n, v). (py_str n, JBool v)) d) = map (\<lambda>(n, v). (py_str n, JBool v)) d"
    unfolding loaded_items_def
    using loaded_items_distinct [OF dumped_keys_distinct [OF assms], of "[]"] by simp
  with int_keys_dumped [OF assms, of "[]"] show ?thesis
    by (simp add: filled_of_json_def json_of_filled_def)
qed

lemma row_roundtrip: "cells_of_row (map json_of_cell row) = Inr row"
  by (induction row) (auto simp add: json_of_cell_def split: option.splits)

lemma grid_roundtrip: "grid_of_json (json_of_grid g) = Inr g"
proof -
  have "grid_of_rows (map (\<lambda>row. JList (map json_of_cell row)) g) = Inr g"
    by (induction g) (simp_all add: row_roundtrip)
  then show ?thesis by (simp add: grid_of_json_def json_of_grid_def)
qed

lemma last_start_roundtrip:
  assumes "\<forall>t. lst = Some t \<longrightarrow> isoformat E t \<noteq> '''' \<and> dateutil_parse E (isoformat E t) = Inr t"
  shows "last_start_of_json E (case lst of None \<Rightarrow> JNull | Some t \<Rightarrow> JStr (isoformat E t)) = Inr lst"
  using assms by (cases lst) (simp_all add: last_start_of_json_def)

text \<open>
  C9. A room whose two filled dicts have distinct keys (as every dict has), whose
  puzzle comes back from its own dict form, and whose start time, when present, comes
  back from its ISO text, is returned unchanged by \<open>from_json\<close> of \<open>to_json\<close>. The
  integer keys are written as their decimal strings and read back by \<open>int\<close>; an
  absent start time is \<open>null\<close> in the document and absent again after reading.
\<close>

theorem from_json_to_json:
  fixes room :: Room
  assumes "distinct (map fst (across_clues_filled room))"
    and "distinct (map fst (down_clues_filled room))"
    and "from_dict E (to_dict E (puzzle room)) = Inr (puzzle room)"
    and "\<forall>t. last_start_time room = Some t \<longrightarrow>
           isoformat E t \<noteq> '''' \<and> dateutil_parse E (isoformat E t) = Inr t"
  shows "from_json E (to_json E room) = Inr room"
proof -
  let ?d = "to_json E room"
  have g1: "json_get ?d ''across_clues_filled'' = Inr (json_of_filled (across_clues_filled room))"
    by (simp add: to_json_def json_get_def)
  have g2: "json_get ?d ''down_clues_filled'' = Inr (json_of_filled (down_clues_filled room))"
    by (simp add: to_json_def json_get_def)
  have g3: "json_get ?d ''last_start_time'' =
      Inr (case last_start_time room of None \<Rightarrow> JNull | Some t \<Rightarrow> JStr (isoformat E t))"
    by (simp add: to_json_def json_get_def)
  have g4: "json_get ?d ''play_pause_state'' = Inr (JStr (play_pause_state room))"
    by (simp add: to_json_def json_get_def)
  have g5: "json_get ?d ''puzzle'' = Inr (to_dict E (puzzle room))"
    by (simp add: to_json_def json_get_def)
  have g6: "json_get ?d ''cells'' = Inr (json_of_grid (Room.cells room))"
    by (simp add: to_json_def json_get_def)
  have g7: "json_get ?d ''total_time_secs'' = Inr (JInt (total_time_secs room))"
    by (simp add: to_json_def json_get_def)
  have "from_json E ?d =
      Inr \<lparr>play_pause_state = play_pause_state room, puzzle = puzzle room,
           cells = Room.cells room, across_clues_filled = across_clues_filled room,
           down_clues_filled = down_clues_filled room,
           last_start_time = last_start_time room, total_time_secs = total_time_secs room\<rparr>"
    unfolding from_json_def g1 g2 g3 g4 g5 g6 g7
    by (simp add: and_then_def filled_roundtrip [OF assms(1)] filled_roundtrip [OF assms(2)]
        last_start_roundtrip [OF assms(4)] assms(3) grid_roundtrip state_of_json_def
        secs_of_json_def)
  then show ?thesis by simp
qed

lemma py_str_demo:
  "py_str 1 = ''1''" "py_str 12 = ''12''" "py_str (- 3) = ''-3''"
  by code_simp+

theorem from_json_to_json_witness:
  "from_json demo_externals
     (to_json demo_externals
        ((demo_room ''playing'' (row3 ''C'' '''' '''') False (Some 1500))
           \<lparr>across_clues_filled := [(1, False), (12, True)], down_clues_filled := [(- 3, True)]\<rparr>)) =
   Inr ((demo_room ''playing'' (row3 ''C'' '''' '''') False (Some 1500))
           \<lparr>across_clues_filled := [(1, False), (12, True)], down_clues_filled := [(- 3, True)]\<rparr>) \<and>
   json_get (to_json demo_externals
        ((demo_room ''playing'' (row3 ''C'' '''' '''') False (Some 1500))
           \<lparr>across_clues_filled := [(1, False), (12, True)], down_clues_filled := [(- 3, True)]\<rparr>))
      ''across_clues_filled'' = Inr (JDict [(''1'', JBool False), (''12'', JBool True)])"
proof -
  let ?r = "(demo_room ''playing'' (row3 ''C'' '''' '''') False (Some 1500))
           \<lparr>across_clues_filled := [(1, False), (12, True)], down_clues_filled := [(- 3, True)]\<rparr>"
  have h1: "distinct (map fst (across_clues_filled ?r))" by simp
  have h2: "distinct (map fst (down_clues_filled ?r))" by simp
  have h3: "from_dict demo_externals (to_dict demo_externals (puzzle ?r)) = Inr (puzzle ?r)"
    by (simp add: demo_room_def demo_externals_def demo_puzzle_def)
  have h4: "\<forall>t. last_start_time ?r = Some t \<longrightarrow>
      isoformat demo_externals t \<noteq> '''' \<and>
      dateutil_parse demo_externals (isoformat demo_externals t) = Inr t"
    by (simp add: demo_externals_def py_int_py_str py_str_nonempty)
  have c2: "json_get (to_json demo_externals ?r) ''across_clues_filled'' =
      Inr (JDict [(''1'', JBool False), (''12'', JBool True)])"
    by (simp add: to_json_def json_get_def json_of_filled_def py_str_demo)
  from from_json_to_json [OF h1 h2 h3 h4] c2 show ?thesis by (rule conjI)
qed

section \<open>Properties of the clue reference\<close>

lemma dropWhile_all: "list_all P xs \<Longrightarrow> dropWhile P (xs @ ys) = dropWhile P ys"
  by (induction xs) simp_all

lemma dropWhile_all_nil: "list_all P xs \<Longrightarrow> dropWhile P xs = []"
  by (induction xs) simp_all

lemma trim_surround:
  assumes "list_all P ws1" and "list_all P ws3"
    and "t \<noteq> []" and "\<not> P (hd t)" and "\<not> P (last t)"
  shows "rev (dropWhile P (rev (dropWhile P (ws1 @ t @ ws3)))) = t"
proof -
  from assms(3,4) have "dropWhile P (t @ ws3) = t @ ws3"
    by (simp add: dropWhile_id)
  with assms(1) have a: "dropWhile P (ws1 @ t @ ws3) = t @ ws3"
    by (simp add: dropWhile_all)
  from assms(2) have "list_all P (rev ws3)" by (simp add: list_all_iff)
  then have "dropWhile P (rev ws3 @ rev t) = dropWhile P (rev t)"
    by (rule dropWhile_all)
  moreover from assms(3,5) have "dropWhile P (rev t) = rev t"
    by (simp add: dropWhile_id hd_rev)
  ultimately show ?thesis by (simp add: a)
qed

lemma trim_decompose:
  "\<exists>ws1 ws3. s = ws1 @ rev (dropWhile P (rev (dropWhile P s))) @ ws3 \<and>
      list_all P ws1 \<and> list_all P ws3"
proof -
  let ?u = "dropWhile P s"
  let ?t = "rev (dropWhile P (rev ?u))"
  have s: "s = takeWhile P s @ ?u" by simp
  have "rev ?u = takeWhile P (rev ?u) @ dropWhile P (rev ?u)" by simp
  then have u: "?u = ?t @ rev (takeWhile P (rev ?u))"
    by (metis rev_append rev_rev_ident)
  have w1: "list_all P (takeWhile P s)"
    by (simp add: list_all_iff) (meson set_takeWhileD)
  have w3: "list_all P (rev (takeWhile P (rev ?u)))"
    by (simp add: list_all_iff) (meson set_takeWhileD)
  from s u have "s = takeWhile P s @ ?t @ rev (takeWhile P (rev ?u))"
    by metis
  with w1 w3 show ?thesis by blast
qed

lemma strip_surround:
  assumes "list_all isspace ws1" and "list_all isspace ws3"
    and "t \<noteq> []" and "\<not> isspace (hd t)" and "\<not> isspace (last t)"
  shows "strip (ws1 @ t @ ws3) = t"
  unfolding strip_def using assms by (rule trim_surround)

lemma strip_decompose:
  "\<exists>ws1 ws3. s = ws1 @ strip s @ ws3 \<and> list_all isspace ws1 \<and> list_all isspace ws3"
  unfolding strip_def by (rule trim_decompose)

lemma int_strip_surround:
  assumes "list_all int_space ws1" and "list_all int_space ws3"
    and "t \<noteq> []" and "\<not> int_space (hd t)" and "\<not> int_space (last t)"
  shows "int_strip (ws1 @ t @ ws3) = t"
  unfolding int_strip_def using assms by (rule trim_surround)

lemma int_strip_decompose:
  "\<exists>ws1 ws3. s = ws1 @ int_strip s @ ws3 \<and> list_all int_space ws1 \<and> list_all int_space ws3"
  unfolding int_strip_def by (rule trim_decompose)

lemma int_spaces_are_spaces: "list_all int_space ws \<Longrightarrow> list_all isspace ws"
  by (auto simp add: list_all_iff int_space_isspace)

lemma of_char_lower:
  "(of_char (lower_char c) :: nat) =
     (if (65 \<le> (of_char c :: nat) \<and> (of_char c :: nat) \<le> 90) \<or>
         (192 \<le> (of_char c :: nat) \<and> (of_char c :: nat) \<le> 222 \<and> (of_char c :: nat) \<noteq> 215)
      then of_char c + 32 else of_char c)"
  by (auto simp add: lower_char_def Let_def)

lemma char_eq_of_char: "(c = d) = ((of_char c :: nat) = of_char d)"
  by simp

lemma lower_char_a: "lower_char c = CHR ''a'' \<longleftrightarrow> c = CHR ''a'' \<or> c = CHR ''A''"
  unfolding char_eq_of_char [of _ "CHR ''a''"] char_eq_of_char [of _ "CHR ''A''"] of_char_lower
  by auto

lemma lower_char_d: "lower_char c = CHR ''d'' \<longleftrightarrow> c = CHR ''d'' \<or> c = CHR ''D''"
  unfolding char_eq_of_char [of _ "CHR ''d''"] char_eq_of_char [of _ "CHR ''D''"] of_char_lower
  by auto

lemma direction_test:
  "\<not> (lower [c] \<noteq> ''a'' \<and> lower [c] \<noteq> ''d'') \<longleftrightarrow> direction_letter c"
  by (auto simp add: lower_def lower_char_a lower_char_d direction_letter_def)

lemma direction_value: "direction_letter c \<Longrightarrow> lower [c] = direction_of c"
  by (auto simp add: lower_def lower_char_a lower_char_d direction_letter_def direction_of_def)

lemma direction_not_space: "direction_letter c \<Longrightarrow> \<not> isspace c"
  by (auto simp add: direction_letter_def isspace_def)

lemma int_digits_groups:
  "(body \<noteq> [] \<and> hd body \<noteq> CHR ''_'' \<and> (\<exists>n. int_digits p acc body = Some n)) \<longleftrightarrow>
   digit_groups body"
proof (induction body arbitrary: p acc rule: digit_groups.induct)
  case 1
  show ?case by simp
next
  case (2 c)
  show ?case by (auto simp add: isdigit_not_underscore)
next
  case (3 c d cs)
  show ?case
  proof (cases "isdigit c")
    case False
    then show ?thesis by auto
  next
    case True
    then have c: "c \<noteq> CHR ''_''" by (rule isdigit_not_underscore)
    show ?thesis
    proof (cases "d = CHR ''_''")
      case True
      have "(\<exists>n. int_digits (CHR ''_'') (acc * 10 + digit_val c) cs = Some n) \<longleftrightarrow>
            (cs \<noteq> [] \<and> hd cs \<noteq> CHR ''_'' \<and>
             (\<exists>n. int_digits (CHR ''_'') (acc * 10 + digit_val c) cs = Some n))"
        by (cases cs) auto
      also have "\<dots> \<longleftrightarrow> digit_groups cs"
        using True by (rule "3.IH"(1))
      finally show ?thesis using \<open>isdigit c\<close> c True by simp
    next
      case False
      from "3.IH"(2) [OF False, of c "acc * 10 + digit_val c"] \<open>isdigit c\<close> c False
      show ?thesis by simp
    qed
  qed
qed

lemma digit_groups_ends:
  "digit_groups body \<Longrightarrow> body \<noteq> [] \<and> isdigit (hd body) \<and> isdigit (last body)"
  by (induction body rule: digit_groups.induct) (auto split: if_splits)

lemma sign_not_space: "\<not> isspace (CHR ''-'')" "\<not> isspace (CHR ''+'')"
  by (simp_all add: isspace_def)

lemma sign_not_int_space: "\<not> int_space (CHR ''-'')" "\<not> int_space (CHR ''+'')"
  by (simp_all add: int_space_def)

lemma py_int_signed:
  assumes "sign_prefix sg" and "digit_groups body"
    and "list_all int_space ws0" and "list_all int_space ws2"
  shows "\<exists>n. py_int (ws0 @ sg @ body @ ws2) = Some n"
proof -
  from digit_groups_ends [OF assms(2)]
  have ne: "body \<noteq> []" and h: "isdigit (hd body)" and l: "isdigit (last body)" by simp_all
  from h have hs: "hd body \<noteq> CHR ''-''" "hd body \<noteq> CHR ''+''" "hd body \<noteq> CHR ''_''"
    using isdigit_not_sign isdigit_not_underscore by blast+
  from int_digits_groups [of body "CHR ''0''" 0] assms(2)
  obtain n where n: "int_digits (CHR ''0'') 0 body = Some n" by blast
  have t1: "sg @ body \<noteq> []" using ne by simp
  have t2: "\<not> int_space (hd (sg @ body))"
    using assms(1) h ne by (auto simp add: sign_prefix_def sign_not_int_space isdigit_not_int_space)
  have t3: "\<not> int_space (last (sg @ body))"
    using l ne by (simp add: isdigit_not_int_space)
  from int_strip_surround [OF assms(3,4) t1 t2 t3]
  have st: "int_strip (ws0 @ sg @ body @ ws2) = sg @ body" by simp
  from assms(1) consider "sg = ''''" | "sg = ''+''" | "sg = ''-''"
    by (auto simp add: sign_prefix_def)
  then show ?thesis
  proof cases
    case 1
    with st have "int_strip (ws0 @ sg @ body @ ws2) = body" by simp
    with ne hs n show ?thesis by (simp add: py_int_def Let_def)
  next
    case 2
    with st have "int_strip (ws0 @ sg @ body @ ws2) = CHR ''+'' # body" by simp
    with ne hs n show ?thesis by (simp add: py_int_def Let_def)
  next
    case 3
    with st have "int_strip (ws0 @ sg @ body @ ws2) = CHR ''-'' # body" by simp
    with ne hs n show ?thesis by (simp add: py_int_def Let_def)
  qed
qed

lemma py_int_shape:
  assumes "py_int u = Some n"
  shows "\<exists>ws0 sg body ws2. u = ws0 @ sg @ body @ ws2 \<and> list_all int_space ws0 \<and>
           list_all int_space ws2 \<and> sign_prefix sg \<and> digit_groups body"
proof -
  let ?t = "int_strip u"
  let ?signed = "?t \<noteq> [] \<and> (hd ?t = CHR ''-'' \<or> hd ?t = CHR ''+'')"
  let ?body = "if ?signed then tl ?t else ?t"
  let ?sg = "if ?signed then [hd ?t] else []"
  from assms have b: "?body \<noteq> []" "hd ?body \<noteq> CHR ''_''"
    and "\<exists>m. int_digits (CHR ''0'') 0 ?body = Some m"
    by (auto simp add: py_int_def Let_def split: if_splits option.splits)
  with int_digits_groups [of ?body "CHR ''0''" 0] have dg: "digit_groups ?body" by blast
  have t: "?t = ?sg @ ?body" by simp
  have sp: "sign_prefix ?sg" by (auto simp add: sign_prefix_def)
  from int_strip_decompose [of u] obtain ws0 ws2
    where "u = ws0 @ ?t @ ws2" "list_all int_space ws0" "list_all int_space ws2" by blast
  with t have "u = ws0 @ ?sg @ ?body @ ws2" by (metis append_assoc)
  with \<open>list_all int_space ws0\<close> \<open>list_all int_space ws2\<close> sp dg show ?thesis by blast
qed

lemma parse_clue_of_strip:
  assumes "strip s = t" and "t \<noteq> []" and "py_int (butlast t) = Some n"
    and "direction_letter (last t)"
  shows "parse_clue (Some s) = Some (n, direction_of (last t))"
proof -
  from assms(4) have lo: "lower [last t] = direction_of (last t)" by (rule direction_value)
  show ?thesis
    using assms(1-3) by (auto simp add: parse_clue_def Let_def lo direction_of_def)
qed

lemma parse_clue_accepts:
  assumes "accepted_clue s"
  shows "parse_clue (Some s) \<noteq> None"
proof -
  from assms obtain ws1 sg body ws2 c ws3
    where s: "s = ws1 @ sg @ body @ ws2 @ [c] @ ws3"
      and w: "list_all isspace ws1" "list_all int_space ws2" "list_all isspace ws3"
      and sg: "sign_prefix sg" and dg: "digit_groups body" and c: "direction_letter c"
    by (auto simp add: accepted_clue_def)
  let ?t = "sg @ body @ ws2 @ [c]"
  from digit_groups_ends [OF dg]
  have ne: "body \<noteq> []" and h: "isdigit (hd body)" by simp_all
  have t2: "\<not> isspace (hd ?t)"
    using sg h ne by (auto simp add: sign_prefix_def sign_not_space isdigit_not_space)
  have t3: "\<not> isspace (last ?t)" using c by (simp add: direction_not_space)
  have t1: "?t \<noteq> []" by simp
  from strip_surround [OF w(1,3) t1 t2 t3]
  have st: "strip s = ?t" by (simp add: s)
  have bl: "butlast ?t = [] @ sg @ body @ ws2"
    by (simp add: butlast_append)
  from py_int_signed [OF sg dg _ w(2), of "[]"] obtain n
    where n: "py_int (butlast ?t) = Some n" unfolding bl by auto
  have la: "direction_letter (last ?t)" using c by simp
  from parse_clue_of_strip [OF st t1 n la] show ?thesis by simp
qed

lemma parse_clue_shape:
  assumes "parse_clue (Some s) \<noteq> None"
  shows "accepted_clue s"
proof -
  let ?t = "strip s"
  from assms have t: "?t \<noteq> []" by (auto simp add: parse_clue_def Let_def)
  with assms obtain n where n: "py_int (butlast ?t) = Some n"
    by (auto simp add: parse_clue_def Let_def split: option.splits)
  from assms t n have "\<not> (lower [last ?t] \<noteq> ''a'' \<and> lower [last ?t] \<noteq> ''d'')"
    by (auto simp add: parse_clue_def Let_def split: if_splits)
  then have c: "direction_letter (last ?t)" by (simp only: direction_test)
  from py_int_shape [OF n] obtain ws0 sg body ws2
    where b: "butlast ?t = ws0 @ sg @ body @ ws2" and w: "list_all int_space ws0" "list_all int_space ws2"
      and sg: "sign_prefix sg" and dg: "digit_groups body" by blast
  from strip_decompose [of s] obtain ws1 ws3
    where s: "s = ws1 @ ?t @ ws3" and w': "list_all isspace ws1" "list_all isspace ws3" by blast
  obtain c where cdef: "c = last ?t" by simp
  from t have "?t = butlast ?t @ [last ?t]" by simp
  with b cdef have tt: "?t = ws0 @ sg @ body @ ws2 @ [c]" by simp
  have "ws1 @ ?t @ ws3 = (ws1 @ ws0) @ sg @ body @ ws2 @ [c] @ ws3"
    by (subst tt) simp
  with s have "s = (ws1 @ ws0) @ sg @ body @ ws2 @ [c] @ ws3" by (rule trans)
  moreover from w(1) w'(1) have "list_all isspace (ws1 @ ws0)"
    by (simp add: int_spaces_are_spaces)
  moreover from c cdef have "direction_letter c" by simp
  ultimately show ?thesis
    unfolding accepted_clue_def using w(2) w'(2) sg dg by blast
qed

lemma parse_clue_plain:
  assumes "list_all isspace ws1" and "list_all isspace ws2"
    and "ds \<noteq> []" and "list_all isdigit ds" and "direction_letter c"
  shows "parse_clue (Some (ws1 @ ds @ [c] @ ws2)) = Some (int (decimal 0 ds), direction_of c)"
proof -
  let ?t = "ds @ [c]"
  from assms(3,4) have "isdigit (hd ds)" by (cases ds) simp_all
  with assms(3) have t2: "\<not> isspace (hd ?t)" by (simp add: isdigit_not_space)
  have t3: "\<not> isspace (last ?t)" using assms(5) by (simp add: direction_not_space)
  have t1: "?t \<noteq> []" by simp
  from strip_surround [OF assms(1,2) t1 t2 t3]
  have st: "strip (ws1 @ ds @ [c] @ ws2) = ?t" by simp
  have n: "py_int (butlast ?t) = Some (int (decimal 0 ds))"
    using py_int_digits(1) [OF assms(4,3)] by simp
  have la: "direction_letter (last ?t)" using assms(5) by simp
  from parse_clue_of_strip [OF st t1 n la] show ?thesis by simp
qed

text \<open>
  C3, as amended. For whitespace, then one or more digits, then one of the letters
  \<open>a\<close>, \<open>A\<close>, \<open>d\<close>, \<open>D\<close>, then whitespace, \<open>parse_clue\<close> returns the number the
  digits denote and the letter in lower case, whatever the case and the whitespace.
  It fails on \<open>None\<close>, and on exactly the strings that are not of the wider form that
  \<open>int\<close> admits: whitespace, an optional sign, digits with single underscores between
  them, whitespace of the kind \<open>int\<close> drops, a direction letter, whitespace. All
  this is about strings of code points below U+0100.
\<close>

theorem parse_clue_grammar:
  "(\<forall>ws1 ds c ws2.
      list_all isspace ws1 \<and> list_all isspace ws2 \<and> ds \<noteq> [] \<and> list_all isdigit ds \<and>
      direction_letter c \<longrightarrow>
      parse_clue (Some (ws1 @ ds @ [c] @ ws2)) = Some (int (decimal 0 ds), direction_of c)) \<and>
   parse_clue None = None \<and>
   (\<forall>s. parse_clue (Some s) = None \<longleftrightarrow> \<not> accepted_clue s)"
proof (intro conjI allI impI)
  fix ws1 ds c ws2
  assume "list_all isspace ws1 \<and> list_all isspace ws2 \<and> ds \<noteq> [] \<and> list_all isdigit ds \<and>
      direction_letter c"
  then show "parse_clue (Some (ws1 @ ds @ [c] @ ws2)) = Some (int (decimal 0 ds), direction_of c)"
    using parse_clue_plain [of ws1 ws2 ds c] by blast
next
  show "parse_clue None = None" by (simp add: parse_clue_def)
next
  fix s
  show "parse_clue (Some s) = None \<longleftrightarrow> \<not> accepted_clue s"
    using parse_clue_accepts [of s] parse_clue_shape [of s] by blast
qed

text \<open>
  C3 as stated fails: \<open>-5a\<close> is not whitespace, digits and a direction letter, and
  \<open>parse_clue\<close> does not fail on it, since \<open>int("-5")\<close> is \<open>-5\<close>.
\<close>

theorem parse_clue_sign_counterexample:
  "parse_clue (Some ''-5a'') = Some (- 5, ''a'') \<and> \<not> isdigit (CHR ''-'') \<and> \<not> isspace (CHR ''-'')"
  by (simp add: parse_clue_def strip_def isspace_def py_int_def int_strip_def int_space_def isdigit_def digit_val_def
      lower_def lower_char_def Let_def)

theorem parse_clue_grammar_witness:
  "parse_clue (Some '' 12D '') = Some (12, ''d'') \<and>
   parse_clue (Some ''12d'') = Some (12, ''d'') \<and>
   parse_clue (Some ''7x'') = None \<and> \<not> accepted_clue ''7x'' \<and>
   parse_clue (Some '''') = None \<and> \<not> accepted_clue '''' \<and>
   parse_clue (Some (''12'' @ [CHR 0x1C] @ ''a'')) = None \<and>
   \<not> accepted_clue (''12'' @ [CHR 0x1C] @ ''a'') \<and>
   parse_clue (Some ''+1_2 a'') = Some (12, ''a'') \<and> accepted_clue ''+1_2 a''"
proof -
  have h: "list_all isspace '' '' \<and> list_all isspace '' '' \<and> ''12'' \<noteq> [] \<and>
      list_all isdigit ''12'' \<and> direction_letter (CHR ''D'')"
    by (simp add: isspace_def isdigit_def direction_letter_def)
  have h': "list_all isspace '''' \<and> list_all isspace '''' \<and> ''12'' \<noteq> [] \<and>
      list_all isdigit ''12'' \<and> direction_letter (CHR ''d'')"
    by (simp add: isspace_def isdigit_def direction_letter_def)
  have v: "int (decimal 0 ''12'') = 12" by (simp add: decimal_def digit_val_def)
  from parse_clue_grammar have
    g: "\<And>ws1 ds c ws2. list_all isspace ws1 \<and> list_all isspace ws2 \<and> ds \<noteq> [] \<and>
          list_all isdigit ds \<and> direction_letter c \<Longrightarrow>
          parse_clue (Some (ws1 @ ds @ [c] @ ws2)) = Some (int (decimal 0 ds), direction_of c)"
    and f: "\<And>s. parse_clue (Some s) = None \<longleftrightarrow> \<not> accepted_clue s"
    by blast+
  from g [OF h] v have a: "parse_clue (Some '' 12D '') = Some (12, ''d'')"
    by (simp add: direction_of_def)
  from g [OF h'] v have b: "parse_clue (Some ''12d'') = Some (12, ''d'')"
    by (simp add: direction_of_def)
  have c: "parse_clue (Some ''7x'') = None" "parse_clue (Some '''') = None"
    "parse_clue (Some (''12'' @ [CHR 0x1C] @ ''a'')) = None"
    "parse_clue (Some ''+1_2 a'') = Some (12, ''a'')"
    by (simp_all add: parse_clue_def strip_def isspace_def py_int_def int_strip_def int_space_def
        isdigit_def digit_val_def lower_def lower_char_def Let_def)
  from c f have d: "\<not> accepted_clue ''7x''" "\<not> accepted_clue ''''"
    "\<not> accepted_clue (''12'' @ [CHR 0x1C] @ ''a'')"
    by simp_all
  have e: "accepted_clue ''+1_2 a''"
  proof (rule ccontr)
    assume "\<not> accepted_clue ''+1_2 a''"
    with f have "parse_clue (Some ''+1_2 a'') = None" by blast
    with c(4) show False by simp
  qed
  from a b c d e show ?thesis by simp
qed

end
